theory Spec2Isabelle
  imports Main "HOL-Library.Word"
begin

section \<open>The vault of CoinDB (deps/CoinDB/src/Vault.cpp)\<close>

text \<open>
  A shallow embedding of the stateful engine of \<^verbatim>\<open>Vault.cpp\<close>. The relational store
  behind \<^verbatim>\<open>db_\<close> is a record of tables; a table is the list of its rows in
  insertion order and a query returns the matching rows in that order, so
  \<^verbatim>\<open>r.begin()\<close> is the head of the filtered list. Every \<^verbatim>\<open>_unwrapped\<close> function takes
  the working state of the open persistence transaction and returns the new one; a
  thrown exception is the left injection of the result.
\<close>

subsection \<open>Scalars, errors and enumerations\<close>

type_synonym bytes_t = "8 word list"
type_synonym secure_bytes_t = "8 word list"
type_synonym uint32_t = "32 word"
type_synonym uint64_t = "64 word"

datatype error =
    KeychainNotFound string
  | KeychainChainCodeUnlockFailed string
  | KeychainPrivateKeyUnlockFailed string
  | KeychainInvalidPrivateKey string bytes_t
  | AccountNotFound string
  | AccountChainCodeLocked string "string set"
  | AccountBinNotFound string string
  | AccountBinOutOfScripts string string
  | AccountCannotIssueChangeScript string
  | AccountInsufficientFunds string
  | TxNotFound bytes_t
  | RuntimeError string
  | ObjectNotPersistent
  | OutOfRange

text \<open>
  \<open>ObjectNotPersistent\<close> is the exception of the persistence layer for an object that
  has no row; \<open>OutOfRange\<close> stands for reading a vector past its end with
  \<^verbatim>\<open>operator[]\<close>, where the behaviour of the source is undefined.
\<close>

text \<open>
  Modelled from the spec: the enumeration \<^verbatim>\<open>Tx::status_t\<close> is declared outside
  \<^verbatim>\<open>Vault.cpp\<close>. The statuses are those of section 3 of the specification and
  \<open>tx_status_rank\<close> orders them as they are listed there; the code compares statuses
  with \<^verbatim>\<open>></\<close> and \<^verbatim>\<open>>=\<close>.
\<close>

datatype tx_status = UNSIGNED | UNSENT | SENT | PROPAGATED | CONFIRMED | CONFLICTING

fun tx_status_rank :: "tx_status \<Rightarrow> nat" where
  "tx_status_rank UNSIGNED = 0"
| "tx_status_rank UNSENT = 1"
| "tx_status_rank SENT = 2"
| "tx_status_rank PROPAGATED = 3"
| "tx_status_rank CONFIRMED = 4"
| "tx_status_rank CONFLICTING = 5"

datatype txout_status = UNSPENT | SPENT

datatype script_status = UNUSED | ISSUED | USED | CHANGE

subsection \<open>Persistent objects\<close>

text \<open>
  An object id is the \<^verbatim>\<open>unsigned long\<close> that the store assigns when the object is
  persisted; id 0 is never assigned. A pointer to a persistent object is the id of its
  row, a null pointer is \<open>None\<close>.
\<close>

record BlockHeader =
  bh_id :: nat
  bh_hash :: bytes_t
  bh_prevhash :: bytes_t
  bh_height :: uint32_t
  bh_timestamp :: uint32_t

text \<open>
  \<open>MerkleBlock\<close> is the object handed to \<^verbatim>\<open>insertMerkleBlock\<close>: it owns its header
  object. \<open>MerkleBlock_row\<close> is its row, holding the id of the header's row.
\<close>

record MerkleBlock =
  mb_blockheader :: BlockHeader
  mb_hashes :: "bytes_t list"

record MerkleBlock_row =
  mbr_id :: nat
  mbr_blockheader :: nat
  mbr_hashes :: "bytes_t list"

record TxIn =
  txin_id :: nat
  txin_outhash :: bytes_t
  txin_outindex :: uint32_t
  txin_script :: bytes_t
  txin_sequence :: uint32_t
  txin_txindex :: uint32_t

record TxOut =
  txout_id :: nat
  txout_value :: uint64_t
  txout_script :: bytes_t
  txout_txindex :: uint32_t
  txout_signingscript :: "nat option"
  txout_spent :: "nat option"
  txout_sending_account :: "nat option"
  txout_status :: txout_status

text \<open>
  A \<open>Tx\<close> owns its inputs and outputs (the vectors \<^verbatim>\<open>txins()\<close> and \<^verbatim>\<open>txouts()\<close>), so
  the row of a transaction carries them; the tables of all inputs and of all outputs
  are the concatenations over the stored transactions.
\<close>

record Tx =
  tx_id :: nat
  tx_hash :: bytes_t
  tx_unsigned_hash :: bytes_t
  tx_status :: tx_status
  tx_blockheader :: "nat option"
  tx_blockindex :: uint32_t
  tx_fee :: uint64_t
  tx_timestamp :: uint32_t
  tx_txins :: "TxIn list"
  tx_txouts :: "TxOut list"

record Keychain =
  kc_id :: nat
  kc_name :: string
  kc_hash :: bytes_t

record Key =
  key_id :: nat
  key_pubkey :: bytes_t
  key_is_private :: bool
  key_root_keychain :: nat

record Account =
  acc_id :: nat
  acc_name :: string
  acc_keychains :: "nat list"
  acc_unused_pool_size :: uint32_t

record AccountBin =
  ab_id :: nat
  ab_account :: nat
  ab_name :: string
  ab_next_script_index :: uint32_t

record SigningScript =
  ss_id :: nat
  ss_account_bin :: nat
  ss_index :: uint32_t
  ss_status :: script_status
  ss_label :: string
  ss_txinscript :: bytes_t
  ss_txoutscript :: bytes_t

record database =
  db_blockheaders :: "BlockHeader list"
  db_merkleblocks :: "MerkleBlock_row list"
  db_txs :: "Tx list"
  db_keychains :: "Keychain list"
  db_keys :: "Key list"
  db_accounts :: "Account list"
  db_bins :: "AccountBin list"
  db_scripts :: "SigningScript list"
  db_next_blockheader_id :: nat
  db_next_merkleblock_id :: nat
  db_next_tx_id :: nat
  db_next_txin_id :: nat
  db_next_txout_id :: nat
  db_next_key_id :: nat
  db_next_script_id :: nat

definition db_txins :: "database \<Rightarrow> TxIn list" where
  "db_txins db = concat (map tx_txins (db_txs db))"

definition db_txouts :: "database \<Rightarrow> TxOut list" where
  "db_txouts db = concat (map tx_txouts (db_txs db))"

text \<open>\<^verbatim>\<open>db_->update(tx)\<close>: the row with the id of the object is replaced by the object.\<close>

definition update_tx :: "Tx \<Rightarrow> database \<Rightarrow> database" where
  "update_tx t db =
     db\<lparr>db_txs := map (\<lambda>s. if tx_id s = tx_id t then t else s) (db_txs db)\<rparr>"

subsection \<open>Global operations\<close>

text \<open>
  Modelled from the spec: the view \<^verbatim>\<open>HorizonTimestampView\<close> is declared outside
  \<^verbatim>\<open>Vault.cpp\<close>. Section 6 of the specification gives it as the earliest block
  timestamp among persisted transactions: the result has one row holding the least
  timestamp of the headers that stored transactions point at, and no row when there is
  no such transaction.
\<close>

definition HorizonTimestampView :: "database \<Rightarrow> uint32_t list" where
  "HorizonTimestampView db =
     (case concat (map (\<lambda>t. map bh_timestamp
                 (filter (\<lambda>h. tx_blockheader t = Some (bh_id h)) (db_blockheaders db)))
               (db_txs db)) of
        [] \<Rightarrow> []
      | ts # tss \<Rightarrow> [fold min tss ts])"

definition getHorizonTimestamp_unwrapped :: "database \<Rightarrow> uint32_t" where
  "getHorizonTimestamp_unwrapped db =
     (case HorizonTimestampView db of
        [] \<Rightarrow> 0xffffffff
      | timestamp # _ \<Rightarrow> timestamp)"

subsection \<open>Transaction lookup\<close>

definition getTx_unwrapped :: "database \<Rightarrow> bytes_t \<Rightarrow> error + Tx" where
  "getTx_unwrapped db hash =
     (case filter (\<lambda>t. tx_hash t = hash \<or> tx_unsigned_hash t = hash) (db_txs db) of
        [] \<Rightarrow> Inl (TxNotFound hash)
      | tx # _ \<Rightarrow> Inr tx)"

subsection \<open>Blockchain operations\<close>

text \<open>
  Modelled from the spec: the view \<^verbatim>\<open>ConfirmedTxView\<close> and the setters
  \<^verbatim>\<open>Tx::blockheader\<close> and \<^verbatim>\<open>Tx::block\<close> are declared outside \<^verbatim>\<open>Vault.cpp\<close>. By
  sections 4.F and 6 of the specification the view joins a transaction with the stored
  merkle blocks that include its hash and gives the id of the block's header; a
  transaction that no stored merkle block includes gives one row with header id 0. The
  setters store the link to the header (and the index within the block).
\<close>

definition ConfirmedTxView :: "database \<Rightarrow> (Tx \<Rightarrow> bool) \<Rightarrow> (nat \<times> nat) list" where
  "ConfirmedTxView db query =
     concat (map (\<lambda>t.
         (case filter (\<lambda>m. tx_hash t \<in> set (mbr_hashes m)) (db_merkleblocks db) of
            [] \<Rightarrow> [(tx_id t, 0)]
          | ms \<Rightarrow> map (\<lambda>m. (tx_id t, mbr_blockheader m)) ms))
       (filter query (db_txs db)))"

definition Tx_blockheader :: "nat option \<Rightarrow> Tx \<Rightarrow> Tx" where
  "Tx_blockheader blockheader t = t\<lparr>tx_blockheader := blockheader\<rparr>"

definition Tx_block :: "nat \<Rightarrow> uint32_t \<Rightarrow> Tx \<Rightarrow> Tx" where
  "Tx_block blockheader blockindex t =
     t\<lparr>tx_blockheader := Some blockheader, tx_blockindex := blockindex\<rparr>"

text \<open>
  The loop of \<^verbatim>\<open>updateConfirmations_unwrapped\<close> over the rows of the view. A row with
  header id 0 is skipped; \<^verbatim>\<open>db_->load\<close> throws when the object is not in the store.
\<close>

fun updateConfirmations_loop :: "(nat \<times> nat) list \<Rightarrow> database \<Rightarrow> nat \<Rightarrow> error + (database \<times> nat)" where
  "updateConfirmations_loop [] db count = Inr (db, count)"
| "updateConfirmations_loop ((view_tx_id, view_blockheader_id) # r) db count =
     (if view_blockheader_id = 0 then updateConfirmations_loop r db count
      else
        (case filter (\<lambda>t. tx_id t = view_tx_id) (db_txs db) of
           [] \<Rightarrow> Inl ObjectNotPersistent
         | tx # _ \<Rightarrow>
             (case filter (\<lambda>h. bh_id h = view_blockheader_id) (db_blockheaders db) of
                [] \<Rightarrow> Inl ObjectNotPersistent
              | blockheader # _ \<Rightarrow>
                  updateConfirmations_loop r
                    (update_tx (Tx_blockheader (Some (bh_id blockheader)) tx) db)
                    (count + 1))))"

definition updateConfirmations_unwrapped :: "Tx option \<Rightarrow> database \<Rightarrow> error + (database \<times> nat)" where
  "updateConfirmations_unwrapped tx db =
     updateConfirmations_loop
       (ConfirmedTxView db
          (\<lambda>t. tx_blockheader t = None \<and>
               (case tx of None \<Rightarrow> True | Some tx' \<Rightarrow> tx_hash t = tx_hash tx')))
       db 0"

text \<open>
  The reorganisation loop of \<^verbatim>\<open>insertMerkleBlock_unwrapped\<close>: for every header of the
  query result the merkle blocks that point at it are erased and the transactions that
  point at it lose their link.
\<close>

fun disconnect_blocks :: "BlockHeader list \<Rightarrow> database \<Rightarrow> database" where
  "disconnect_blocks [] db = db"
| "disconnect_blocks (sidechain_header # block_r) db =
     disconnect_blocks block_r
       (db\<lparr>db_merkleblocks :=
              filter (\<lambda>m. mbr_blockheader m \<noteq> bh_id sidechain_header) (db_merkleblocks db),
            db_txs :=
              map (\<lambda>t. if tx_blockheader t = Some (bh_id sidechain_header)
                        then Tx_blockheader None t else t) (db_txs db)\<rparr>)"

definition reorg :: "uint32_t \<Rightarrow> database \<Rightarrow> database" where
  "reorg height db =
     (case filter (\<lambda>h. bh_height h \<ge> height) (db_blockheaders db) of
        [] \<Rightarrow> db
      | block_r \<Rightarrow>
          (let db1 = disconnect_blocks block_r db
           in db1\<lparr>db_blockheaders := filter (\<lambda>h. \<not> bh_height h \<ge> height) (db_blockheaders db1)\<rparr>))"

text \<open>
  \<^verbatim>\<open>db_->persist(new_header); db_->persist(merkleblock)\<close>: both objects get fresh ids
  and the row of the merkle block points at the row of its header.
\<close>

definition persist_merkleblock :: "MerkleBlock \<Rightarrow> database \<Rightarrow> database" where
  "persist_merkleblock merkleblock db =
     db\<lparr>db_blockheaders := db_blockheaders db @
            [(mb_blockheader merkleblock)\<lparr>bh_id := db_next_blockheader_id db\<rparr>],
        db_merkleblocks := db_merkleblocks db @
            [\<lparr>mbr_id = db_next_merkleblock_id db,
              mbr_blockheader = db_next_blockheader_id db,
              mbr_hashes = mb_hashes merkleblock\<rparr>],
        db_next_blockheader_id := db_next_blockheader_id db + 1,
        db_next_merkleblock_id := db_next_merkleblock_id db + 1\<rparr>"

definition connect_txs :: "nat \<Rightarrow> bytes_t list \<Rightarrow> database \<Rightarrow> database" where
  "connect_txs new_header hashes db =
     db\<lparr>db_txs := map (\<lambda>t. if tx_hash t \<in> set hashes
                             then Tx_block new_header 0xffffffff t else t) (db_txs db)\<rparr>"

text \<open>
  \<open>TIME_HORIZON_WINDOW\<close> is a constant declared outside \<^verbatim>\<open>Vault.cpp\<close>; it is a
  parameter here. It is added to the \<^verbatim>\<open>uint32_t\<close> timestamp of the header, so the sum
  wraps at \<open>2 ^ 32\<close>.
\<close>

definition insertMerkleBlock_unwrapped ::
  "uint32_t \<Rightarrow> MerkleBlock \<Rightarrow> database \<Rightarrow> error + (database \<times> bool)" where
  "insertMerkleBlock_unwrapped TIME_HORIZON_WINDOW merkleblock db =
     (let new_header = mb_blockheader merkleblock in
      if filter (\<lambda>h. bh_hash h = bh_prevhash new_header) (db_blockheaders db) = [] \<and>
         bh_timestamp new_header + TIME_HORIZON_WINDOW > getHorizonTimestamp_unwrapped db
      then Inr (db, False)
      else if filter (\<lambda>h. bh_hash h = bh_hash new_header) (db_blockheaders db) \<noteq> []
      then Inr (db, False)
      else
        (let db1 = reorg (bh_height new_header) db;
             db2 = persist_merkleblock merkleblock db1;
             db3 = connect_txs (db_next_blockheader_id db1) (mb_hashes merkleblock) db2
         in case updateConfirmations_unwrapped None db3 of
              Inl e \<Rightarrow> Inl e
            | Inr (db4, count) \<Rightarrow> Inr (db4, True)))"

subsection \<open>External collaborators\<close>

text \<open>
  The script library, the key derivation, the cryptographic primitives, the random
  shuffle, the clock and the name of the change bin are declared outside
  \<^verbatim>\<open>Vault.cpp\<close>; the vault consumes them as a set of capabilities, which is a parameter
  of every operation that uses one. \<open>'s\<close> is the type of a parsed \<^verbatim>\<open>Script\<close> object.
\<close>

datatype sigtype_t = EDIT | SIGN | BROADCAST

record TxOutView =
  view_value :: uint64_t
  view_tx_hash :: bytes_t
  view_tx_index :: uint32_t
  view_signingscript_txinscript :: bytes_t

record 's env =
  CHANGE_BIN_NAME :: string
  Keychain_unlockChainCode :: "Keychain \<Rightarrow> secure_bytes_t \<Rightarrow> bool"
  Keychain_unlockPrivateKey :: "Keychain \<Rightarrow> secure_bytes_t \<Rightarrow> bool"
  AccountBin_newSigningScript :: "Account \<Rightarrow> AccountBin \<Rightarrow> bytes_t \<times> bytes_t \<times> Key list"
  Script :: "bytes_t \<Rightarrow> 's"
  Script_sigsneeded :: "'s \<Rightarrow> nat"
  Script_missingsigs :: "'s \<Rightarrow> bytes_t list"
  Script_addSig :: "bytes_t \<Rightarrow> bytes_t \<Rightarrow> 's \<Rightarrow> 's"
  Script_mergesigs :: "'s \<Rightarrow> 's \<Rightarrow> 's \<times> nat"
  Script_txinscript :: "sigtype_t \<Rightarrow> 's \<Rightarrow> bytes_t"
  Key_try_privkey :: "Key \<Rightarrow> secure_bytes_t"
  secp256k1_getPubKey :: "secure_bytes_t \<Rightarrow> bytes_t"
  secp256k1_sign :: "secure_bytes_t \<Rightarrow> bytes_t \<Rightarrow> bytes_t"
  Tx_signingHash :: "Tx \<Rightarrow> nat \<Rightarrow> bytes_t \<Rightarrow> bytes_t"
  Tx_computeHash :: "uint32_t \<Rightarrow> TxIn list \<Rightarrow> TxOut list \<Rightarrow> uint32_t \<Rightarrow> bytes_t"
  Tx_computeUnsignedHash :: "uint32_t \<Rightarrow> TxIn list \<Rightarrow> TxOut list \<Rightarrow> uint32_t \<Rightarrow> bytes_t"
  random_shuffle_utxoviews :: "TxOutView list \<Rightarrow> TxOutView list"
  random_shuffle_txouts :: "TxOut list \<Rightarrow> TxOut list"
  time_now :: uint32_t

subsection \<open>The vault: the store and the unlock maps\<close>

text \<open>
  \<open>v_db\<close> is the store as the open persistence transaction sees it. The two maps are
  the process-wide runtime state; they are not part of the store and a rollback does
  not restore them. A vault operation returns the new vault together with its result
  or the exception it throws.
\<close>

record Vault =
  v_db :: database
  mapChainCodeUnlock :: "string \<rightharpoonup> secure_bytes_t"
  mapPrivateKeyUnlock :: "string \<rightharpoonup> secure_bytes_t"

subsection \<open>Keychain operations\<close>

definition getKeychain_unwrapped :: "database \<Rightarrow> string \<Rightarrow> error + Keychain" where
  "getKeychain_unwrapped db keychain_name =
     (case filter (\<lambda>k. kc_name k = keychain_name) (db_keychains db) of
        [] \<Rightarrow> Inl (KeychainNotFound keychain_name)
      | keychain # _ \<Rightarrow> Inr keychain)"

text \<open>
  The public unlock operations. Neither commits: they change no row. The key is stored
  in the map when the keychain accepts it; there is no other branch.
\<close>

definition unlockKeychainChainCode ::
  "'s env \<Rightarrow> string \<Rightarrow> secure_bytes_t \<Rightarrow> Vault \<Rightarrow> Vault \<times> (error + unit)" where
  "unlockKeychainChainCode cap keychain_name unlock_key v =
     (case getKeychain_unwrapped (v_db v) keychain_name of
        Inl e \<Rightarrow> (v, Inl e)
      | Inr keychain \<Rightarrow>
          if Keychain_unlockChainCode cap keychain unlock_key
          then (v\<lparr>mapChainCodeUnlock := (mapChainCodeUnlock v)(keychain_name \<mapsto> unlock_key)\<rparr>,
                Inr ())
          else (v, Inr ()))"

definition unlockKeychainPrivateKey ::
  "'s env \<Rightarrow> string \<Rightarrow> secure_bytes_t \<Rightarrow> Vault \<Rightarrow> Vault \<times> (error + unit)" where
  "unlockKeychainPrivateKey cap keychain_name unlock_key v =
     (case getKeychain_unwrapped (v_db v) keychain_name of
        Inl e \<Rightarrow> (v, Inl e)
      | Inr keychain \<Rightarrow>
          if Keychain_unlockPrivateKey cap keychain unlock_key
          then (v\<lparr>mapPrivateKeyUnlock := (mapPrivateKeyUnlock v)(keychain_name \<mapsto> unlock_key)\<rparr>,
                Inr ())
          else (v, Inr ()))"

definition lockKeychainChainCode :: "string \<Rightarrow> Vault \<Rightarrow> Vault" where
  "lockKeychainChainCode keychain_name v =
     v\<lparr>mapChainCodeUnlock := (mapChainCodeUnlock v)(keychain_name := None)\<rparr>"

definition lockKeychainPrivateKey :: "string \<Rightarrow> Vault \<Rightarrow> Vault" where
  "lockKeychainPrivateKey keychain_name v =
     v\<lparr>mapPrivateKeyUnlock := (mapPrivateKeyUnlock v)(keychain_name := None)\<rparr>"

definition tryUnlockKeychainChainCode_unwrapped :: "'s env \<Rightarrow> Keychain \<Rightarrow> Vault \<Rightarrow> error + bool" where
  "tryUnlockKeychainChainCode_unwrapped cap keychain v =
     (case mapChainCodeUnlock v (kc_name keychain) of
        None \<Rightarrow> Inr False
      | Some unlock_key \<Rightarrow>
          if \<not> Keychain_unlockChainCode cap keychain unlock_key
          then Inl (KeychainChainCodeUnlockFailed (kc_name keychain))
          else Inr True)"

definition tryUnlockKeychainPrivateKey_unwrapped :: "'s env \<Rightarrow> Keychain \<Rightarrow> Vault \<Rightarrow> error + bool" where
  "tryUnlockKeychainPrivateKey_unwrapped cap keychain v =
     (case mapPrivateKeyUnlock v (kc_name keychain) of
        None \<Rightarrow> Inr False
      | Some unlock_key \<Rightarrow>
          if \<not> Keychain_unlockPrivateKey cap keychain unlock_key
          then Inl (KeychainPrivateKeyUnlockFailed (kc_name keychain))
          else Inr True)"

text \<open>
  \<^verbatim>\<open>account->keychains()\<close> and the other pointers of a loaded object: the rows with the
  ids the object holds. Loading an id that has no row throws.
\<close>

fun load_keychains :: "database \<Rightarrow> nat list \<Rightarrow> error + Keychain list" where
  "load_keychains db [] = Inr []"
| "load_keychains db (i # ids) =
     (case filter (\<lambda>k. kc_id k = i) (db_keychains db) of
        [] \<Rightarrow> Inl ObjectNotPersistent
      | keychain # _ \<Rightarrow>
          (case load_keychains db ids of
             Inl e \<Rightarrow> Inl e
           | Inr keychains \<Rightarrow> Inr (keychain # keychains)))"

definition load_account :: "database \<Rightarrow> nat \<Rightarrow> error + Account" where
  "load_account db i =
     (case filter (\<lambda>a. acc_id a = i) (db_accounts db) of
        [] \<Rightarrow> Inl ObjectNotPersistent
      | account # _ \<Rightarrow> Inr account)"

definition load_bin :: "database \<Rightarrow> nat \<Rightarrow> error + AccountBin" where
  "load_bin db i =
     (case filter (\<lambda>b. ab_id b = i) (db_bins db) of
        [] \<Rightarrow> Inl ObjectNotPersistent
      | bin # _ \<Rightarrow> Inr bin)"

text \<open>
  The loop of \<^verbatim>\<open>tryUnlockAccountChainCodes_unwrapped\<close>: a keychain without a cached
  key is locked; a cached key that the keychain rejects is erased from the map and the
  keychain is locked.
\<close>

fun tryUnlock_keychains ::
  "'s env \<Rightarrow> Keychain list \<Rightarrow> (string \<rightharpoonup> secure_bytes_t) \<Rightarrow> string set \<Rightarrow>
   (string \<rightharpoonup> secure_bytes_t) \<times> string set" where
  "tryUnlock_keychains cap [] m locked_keychains = (m, locked_keychains)"
| "tryUnlock_keychains cap (keychain # keychains) m locked_keychains =
     (case m (kc_name keychain) of
        None \<Rightarrow> tryUnlock_keychains cap keychains m (insert (kc_name keychain) locked_keychains)
      | Some unlock_key \<Rightarrow>
          if \<not> Keychain_unlockChainCode cap keychain unlock_key
          then tryUnlock_keychains cap keychains (m(kc_name keychain := None))
                 (insert (kc_name keychain) locked_keychains)
          else tryUnlock_keychains cap keychains m locked_keychains)"

definition tryUnlockAccountChainCodes_unwrapped ::
  "'s env \<Rightarrow> Account \<Rightarrow> Vault \<Rightarrow> Vault \<times> (error + unit)" where
  "tryUnlockAccountChainCodes_unwrapped cap account v =
     (case load_keychains (v_db v) (acc_keychains account) of
        Inl e \<Rightarrow> (v, Inl e)
      | Inr keychains \<Rightarrow>
          (case tryUnlock_keychains cap keychains (mapChainCodeUnlock v) {} of
             (m, locked_keychains) \<Rightarrow>
               (v\<lparr>mapChainCodeUnlock := m\<rparr>,
                if locked_keychains \<noteq> {}
                then Inl (AccountChainCodeLocked (acc_name account) locked_keychains)
                else Inr ())))"

subsection \<open>Account operations\<close>

definition getAccount_unwrapped :: "database \<Rightarrow> string \<Rightarrow> error + Account" where
  "getAccount_unwrapped db account_name =
     (case filter (\<lambda>a. acc_name a = account_name) (db_accounts db) of
        [] \<Rightarrow> Inl (AccountNotFound account_name)
      | account # _ \<Rightarrow> Inr account)"

text \<open>
  Modelled from the spec: the views \<^verbatim>\<open>AccountBinView\<close>, \<^verbatim>\<open>ScriptCountView\<close>,
  \<^verbatim>\<open>SigningScriptView\<close> and \<^verbatim>\<open>TxOutView\<close> and the method \<^verbatim>\<open>AccountBin::isChange\<close> are
  declared outside \<^verbatim>\<open>Vault.cpp\<close>. By sections 3 and 6 of the specification a view
  joins an object with the objects it points at (a bin with its account, a script with
  its bin, an output with the script that owns it), and a bin is the change bin if and
  only if its name is the reserved name of the change bin.
\<close>

definition AccountBinView :: "database \<Rightarrow> string \<Rightarrow> string \<Rightarrow> nat list" where
  "AccountBinView db account_name bin_name =
     map ab_id
       (filter (\<lambda>b. ab_name b = bin_name \<and>
                     filter (\<lambda>a. acc_id a = ab_account b \<and> acc_name a = account_name)
                       (db_accounts db) \<noteq> [])
          (db_bins db))"

definition AccountBin_isChange :: "'s env \<Rightarrow> AccountBin \<Rightarrow> bool" where
  "AccountBin_isChange cap bin = (ab_name bin = CHANGE_BIN_NAME cap)"

definition ScriptCountView :: "database \<Rightarrow> nat \<Rightarrow> script_status \<Rightarrow> uint32_t" where
  "ScriptCountView db bin_id status =
     of_nat (length (filter (\<lambda>s. ss_account_bin s = bin_id \<and> ss_status s = status)
                       (db_scripts db)))"

definition TxOutView_unspent :: "database \<Rightarrow> nat \<Rightarrow> TxOutView list" where
  "TxOutView_unspent db account_id =
     concat (map (\<lambda>t.
         map (\<lambda>txout. \<lparr>view_value = txout_value txout, view_tx_hash = tx_hash t,
                       view_tx_index = txout_txindex txout,
                       view_signingscript_txinscript =
                         (case filter (\<lambda>s. Some (ss_id s) = txout_signingscript txout) (db_scripts db) of
                            [] \<Rightarrow> []
                          | s # _ \<Rightarrow> ss_txinscript s)\<rparr>)
           (filter (\<lambda>txout. txout_status txout = UNSPENT \<and>
                      filter (\<lambda>s. Some (ss_id s) = txout_signingscript txout \<and>
                                 filter (\<lambda>b. ab_id b = ss_account_bin s \<and> ab_account b = account_id)
                                   (db_bins db) \<noteq> [])
                        (db_scripts db) \<noteq> [])
              (tx_txouts t)))
       (db_txs db))"

definition getAccountBin_unwrapped :: "database \<Rightarrow> string \<Rightarrow> string \<Rightarrow> error + AccountBin" where
  "getAccountBin_unwrapped db account_name bin_name =
     (case AccountBinView db account_name bin_name of
        [] \<Rightarrow> Inl (AccountBinNotFound account_name bin_name)
      | bin_id # _ \<Rightarrow> load_bin db bin_id)"

definition update_bin :: "AccountBin \<Rightarrow> database \<Rightarrow> database" where
  "update_bin bin db =
     db\<lparr>db_bins := map (\<lambda>b. if ab_id b = ab_id bin then bin else b) (db_bins db)\<rparr>"

definition update_script :: "SigningScript \<Rightarrow> database \<Rightarrow> database" where
  "update_script script db =
     db\<lparr>db_scripts := map (\<lambda>s. if ss_id s = ss_id script then script else s) (db_scripts db)\<rparr>"

text \<open>\<^verbatim>\<open>for (auto& key: script->keys()) { db_->persist(key); }\<close>\<close>

fun persist_keys :: "Key list \<Rightarrow> database \<Rightarrow> database" where
  "persist_keys [] db = db"
| "persist_keys (key # keys) db =
     persist_keys keys
       (db\<lparr>db_keys := db_keys db @ [key\<lparr>key_id := db_next_key_id db\<rparr>],
           db_next_key_id := db_next_key_id db + 1\<rparr>)"

text \<open>
  The loop of \<^verbatim>\<open>refillAccountBinPool_unwrapped\<close>, which runs
  \<^verbatim>\<open>unused_pool_size - count\<close> times when \<^verbatim>\<open>count < unused_pool_size\<close> and not at all
  otherwise. \<^verbatim>\<open>bin->newSigningScript()\<close> derives the script at the next index of the bin
  and advances that index; the new script is UNUSED.
\<close>

fun newSigningScripts :: "'s env \<Rightarrow> Account \<Rightarrow> nat \<Rightarrow> AccountBin \<Rightarrow> database \<Rightarrow> AccountBin \<times> database" where
  "newSigningScripts cap account 0 bin db = (bin, db)"
| "newSigningScripts cap account (Suc n) bin db =
     (case AccountBin_newSigningScript cap account bin of
        (txinscript, txoutscript, keys) \<Rightarrow>
          (let db1 = persist_keys keys db;
               script = \<lparr>ss_id = db_next_script_id db1, ss_account_bin = ab_id bin,
                         ss_index = ab_next_script_index bin, ss_status = UNUSED,
                         ss_label = [], ss_txinscript = txinscript,
                         ss_txoutscript = txoutscript\<rparr>
           in newSigningScripts cap account n
                (bin\<lparr>ab_next_script_index := ab_next_script_index bin + 1\<rparr>)
                (db1\<lparr>db_scripts := db_scripts db1 @ [script],
                     db_next_script_id := db_next_script_id db1 + 1\<rparr>)))"

definition refillAccountBinPool_unwrapped ::
  "'s env \<Rightarrow> AccountBin \<Rightarrow> Vault \<Rightarrow> Vault \<times> (error + unit)" where
  "refillAccountBinPool_unwrapped cap bin v =
     (case load_account (v_db v) (ab_account bin) of
        Inl e \<Rightarrow> (v, Inl e)
      | Inr account \<Rightarrow>
          (case tryUnlockAccountChainCodes_unwrapped cap account v of
             (v1, Inl e) \<Rightarrow> (v1, Inl e)
           | (v1, Inr _) \<Rightarrow>
               (let count = ScriptCountView (v_db v1) (ab_id bin) UNUSED;
                    unused_pool_size = acc_unused_pool_size account
                in case newSigningScripts cap account (unat unused_pool_size - unat count) bin (v_db v1) of
                     (bin1, db1) \<Rightarrow> (v1\<lparr>v_db := update_bin bin1 db1\<rparr>, Inr ()))))"

text \<open>
  \<^verbatim>\<open>ORDER BY index LIMIT 1\<close> over the UNUSED scripts of the bin: a script of least index.
  The final \<^verbatim>\<open>db_->update(script->account_bin())\<close> writes the bin object back as it was
  loaded and changes no row.
\<close>

fun least_index :: "SigningScript list \<Rightarrow> SigningScript \<Rightarrow> SigningScript" where
  "least_index [] best = best"
| "least_index (s # r) best = least_index r (if ss_index s < ss_index best then s else best)"

definition issueAccountBinSigningScript_unwrapped ::
  "'s env \<Rightarrow> AccountBin \<Rightarrow> string \<Rightarrow> Vault \<Rightarrow> Vault \<times> (error + SigningScript)" where
  "issueAccountBinSigningScript_unwrapped cap bin label v =
     (case load_account (v_db v) (ab_account bin) of
        Inl e \<Rightarrow> (v, Inl e)
      | Inr account \<Rightarrow>
          if AccountBin_isChange cap bin
          then (v, Inl (AccountCannotIssueChangeScript (acc_name account)))
          else
            (case (case refillAccountBinPool_unwrapped cap bin v of
                     (v1, Inl (AccountChainCodeLocked n l)) \<Rightarrow> (v1, Inr ())
                   | r \<Rightarrow> r) of
               (v1, Inl e) \<Rightarrow> (v1, Inl e)
             | (v1, Inr _) \<Rightarrow>
                 (case filter (\<lambda>s. ss_account_bin s = ab_id bin \<and> ss_status s = UNUSED)
                         (db_scripts (v_db v1)) of
                    [] \<Rightarrow> (v1, Inl (AccountBinOutOfScripts (acc_name account) (ab_name bin)))
                  | s # r \<Rightarrow>
                      (case filter (\<lambda>x. ss_id x = ss_id (least_index r s)) (db_scripts (v_db v1)) of
                         [] \<Rightarrow> (v1, Inl ObjectNotPersistent)
                       | script # _ \<Rightarrow>
                           (let script1 = script\<lparr>ss_label := label, ss_status := ISSUED\<rparr>
                            in (v1\<lparr>v_db := update_script script1 (v_db v1)\<rparr>, Inr script1))))))"

subsection \<open>Transaction operations\<close>

text \<open>
  Modelled from the spec: the methods of \<^verbatim>\<open>Tx\<close>, \<^verbatim>\<open>TxIn\<close> and \<^verbatim>\<open>TxOut\<close> are declared
  outside \<^verbatim>\<open>Vault.cpp\<close>. By section 4.E.1 of the specification \<^verbatim>\<open>updateStatus()\<close>
  recomputes the status from the signatures (UNSIGNED if any input is missing a
  required signature, otherwise UNSENT, or the higher status that the caller provided)
  and \<^verbatim>\<open>updateStatus(status)\<close> sets the status. By section 3 the setter
  \<^verbatim>\<open>TxOut::spent\<close> stores the back-link and the status with it: SPENT for a link,
  UNSPENT for null. \<^verbatim>\<open>Tx::set\<close> fills a new transaction and numbers its inputs and
  outputs.
\<close>

definition Tx_missingSigCount :: "'s env \<Rightarrow> Tx \<Rightarrow> nat" where
  "Tx_missingSigCount cap tx =
     sum_list (map (\<lambda>txin. Script_sigsneeded cap (Script cap (txin_script txin))) (tx_txins tx))"

definition Tx_updateStatus :: "'s env \<Rightarrow> Tx \<Rightarrow> Tx" where
  "Tx_updateStatus cap tx =
     tx\<lparr>tx_status :=
          (if Tx_missingSigCount cap tx > 0 then UNSIGNED
           else if tx_status_rank (tx_status tx) > tx_status_rank UNSENT then tx_status tx
           else UNSENT)\<rparr>"

definition Tx_updateStatus_to :: "tx_status \<Rightarrow> Tx \<Rightarrow> Tx" where
  "Tx_updateStatus_to status tx = tx\<lparr>tx_status := status\<rparr>"

definition TxOut_spent :: "nat option \<Rightarrow> TxOut \<Rightarrow> TxOut" where
  "TxOut_spent spent txout =
     txout\<lparr>txout_spent := spent,
           txout_status := (case spent of None \<Rightarrow> UNSPENT | Some _ \<Rightarrow> SPENT)\<rparr>"

definition new_TxIn :: "bytes_t \<Rightarrow> uint32_t \<Rightarrow> bytes_t \<Rightarrow> uint32_t \<Rightarrow> TxIn" where
  "new_TxIn outhash outindex script sequence =
     \<lparr>txin_id = 0, txin_outhash = outhash, txin_outindex = outindex, txin_script = script,
      txin_sequence = sequence, txin_txindex = 0\<rparr>"

definition new_TxOut :: "uint64_t \<Rightarrow> SigningScript \<Rightarrow> TxOut" where
  "new_TxOut v signingscript =
     \<lparr>txout_id = 0, txout_value = v, txout_script = ss_txoutscript signingscript,
      txout_txindex = 0, txout_signingscript = Some (ss_id signingscript),
      txout_spent = None, txout_sending_account = None, txout_status = UNSPENT\<rparr>"

definition Tx_set ::
  "'s env \<Rightarrow> uint32_t \<Rightarrow> TxIn list \<Rightarrow> TxOut list \<Rightarrow> uint32_t \<Rightarrow> uint32_t \<Rightarrow> tx_status \<Rightarrow> Tx" where
  "Tx_set cap version txins txouts locktime timestamp status =
     \<lparr>tx_id = 0,
      tx_hash = Tx_computeHash cap version txins txouts locktime,
      tx_unsigned_hash = Tx_computeUnsignedHash cap version txins txouts locktime,
      tx_status = status, tx_blockheader = None, tx_blockindex = 0, tx_fee = 0,
      tx_timestamp = timestamp,
      tx_txins = map (\<lambda>(k, txin). txin\<lparr>txin_txindex := of_nat k\<rparr>) (enumerate 0 txins),
      tx_txouts = map (\<lambda>(k, txout). txout\<lparr>txout_txindex := of_nat k\<rparr>) (enumerate 0 txouts)\<rparr>"

text \<open>
  Rows of inputs and outputs live inside the row of their transaction:
  \<^verbatim>\<open>db_->update\<close> replaces the object with the same id, \<^verbatim>\<open>db_->erase\<close> removes it.
\<close>

definition update_txin :: "TxIn \<Rightarrow> database \<Rightarrow> database" where
  "update_txin txin db =
     db\<lparr>db_txs := map (\<lambda>t. t\<lparr>tx_txins := map (\<lambda>i. if txin_id i = txin_id txin then txin else i)
                                              (tx_txins t)\<rparr>) (db_txs db)\<rparr>"

definition update_txout :: "TxOut \<Rightarrow> database \<Rightarrow> database" where
  "update_txout txout db =
     db\<lparr>db_txs := map (\<lambda>t. t\<lparr>tx_txouts := map (\<lambda>x. if txout_id x = txout_id txout then txout else x)
                                               (tx_txouts t)\<rparr>) (db_txs db)\<rparr>"

definition erase_txin :: "nat \<Rightarrow> database \<Rightarrow> database" where
  "erase_txin i db =
     db\<lparr>db_txs := map (\<lambda>t. t\<lparr>tx_txins := filter (\<lambda>x. txin_id x \<noteq> i) (tx_txins t)\<rparr>) (db_txs db)\<rparr>"

definition erase_txout :: "nat \<Rightarrow> database \<Rightarrow> database" where
  "erase_txout i db =
     db\<lparr>db_txs := map (\<lambda>t. t\<lparr>tx_txouts := filter (\<lambda>x. txout_id x \<noteq> i) (tx_txouts t)\<rparr>) (db_txs db)\<rparr>"

definition erase_tx :: "nat \<Rightarrow> database \<Rightarrow> database" where
  "erase_tx i db = db\<lparr>db_txs := filter (\<lambda>t. tx_id t \<noteq> i) (db_txs db)\<rparr>"

text \<open>\<^verbatim>\<open>txin->tx()\<close> for the input with the given id: the transaction that owns it.\<close>

definition TxIn_tx :: "database \<Rightarrow> nat \<Rightarrow> error + Tx" where
  "TxIn_tx db txin =
     (case filter (\<lambda>t. txin \<in> set (map txin_id (tx_txins t))) (db_txs db) of
        [] \<Rightarrow> Inl ObjectNotPersistent
      | t # _ \<Rightarrow> Inr t)"

text \<open>
  An object that is not persisted yet is pointed at before it has an id
  (\<^verbatim>\<open>outpoint->spent(txin)\<close> with an input of the incoming transaction). The model
  gives the incoming transaction, its inputs and its outputs the ids that
  \<^verbatim>\<open>db_->persist\<close> will assign, before the scan; \<open>persist_tx\<close> stores the objects under
  these ids and advances the counters.
\<close>

definition Tx_assign_ids :: "database \<Rightarrow> Tx \<Rightarrow> Tx" where
  "Tx_assign_ids db tx =
     tx\<lparr>tx_id := db_next_tx_id db,
        tx_txins := map (\<lambda>(k, txin). txin\<lparr>txin_id := k\<rparr>)
                      (enumerate (db_next_txin_id db) (tx_txins tx)),
        tx_txouts := map (\<lambda>(k, txout). txout\<lparr>txout_id := k\<rparr>)
                       (enumerate (db_next_txout_id db) (tx_txouts tx))\<rparr>"

definition persist_tx :: "Tx \<Rightarrow> database \<Rightarrow> database" where
  "persist_tx tx db =
     db\<lparr>db_txs := db_txs db @ [tx],
        db_next_tx_id := db_next_tx_id db + 1,
        db_next_txin_id := db_next_txin_id db + length (tx_txins tx),
        db_next_txout_id := db_next_txout_id db + length (tx_txouts tx)\<rparr>"

subsubsection \<open>insertTx: a stored transaction has the same unsigned hash\<close>

text \<open>
  The stored transaction is UNSIGNED and the incoming one is signed: every stored input
  takes the script of the incoming input at the same position.
\<close>

fun replace_scripts :: "TxIn list \<Rightarrow> TxIn list \<Rightarrow> nat \<Rightarrow> database \<Rightarrow> error + (TxIn list \<times> database)" where
  "replace_scripts [] txins i db = Inr ([], db)"
| "replace_scripts (txin # stored_txins) txins i db =
     (if i < length txins
      then (let txin1 = txin\<lparr>txin_script := txin_script (txins ! i)\<rparr>
            in case replace_scripts stored_txins txins (i + 1) (update_txin txin1 db) of
                 Inl e \<Rightarrow> Inl e
               | Inr (r, db1) \<Rightarrow> Inr (txin1 # r, db1))
      else Inl OutOfRange)"

text \<open>
  Both are UNSIGNED: the signatures of the incoming input are merged into the stored
  one; an input that gained a signature is rewritten in EDIT form and updated.
\<close>

fun merge_scripts ::
  "'s env \<Rightarrow> TxIn list \<Rightarrow> TxIn list \<Rightarrow> nat \<Rightarrow> database \<Rightarrow> bool \<Rightarrow>
   error + (TxIn list \<times> database \<times> bool)" where
  "merge_scripts cap [] txins i db updated = Inr ([], db, updated)"
| "merge_scripts cap (txin # stored_txins) txins i db updated =
     (if i < length txins
      then (case Script_mergesigs cap (Script cap (txin_script txin))
                   (Script cap (txin_script (txins ! i))) of
              (stored_script, sigsadded) \<Rightarrow>
                (let txin1 = (if sigsadded > 0
                              then txin\<lparr>txin_script := Script_txinscript cap EDIT stored_script\<rparr>
                              else txin)
                 in case merge_scripts cap stored_txins txins (i + 1)
                           (if sigsadded > 0 then update_txin txin1 db else db)
                           (if sigsadded > 0 then True else updated) of
                      Inl e \<Rightarrow> Inl e
                    | Inr (r, db1, updated1) \<Rightarrow> Inr (txin1 # r, db1, updated1)))
      else Inl OutOfRange)"

definition insertTx_duplicate :: "'s env \<Rightarrow> Tx \<Rightarrow> Tx \<Rightarrow> database \<Rightarrow> error + (database \<times> Tx option)" where
  "insertTx_duplicate cap tx stored_tx db =
     (if tx_status stored_tx = UNSIGNED
      then
        (if tx_status tx \<noteq> UNSIGNED
         then (case replace_scripts (tx_txins stored_tx) (tx_txins tx) 0 db of
                 Inl e \<Rightarrow> Inl e
               | Inr (txins1, db1) \<Rightarrow>
                   (let stored_tx1 = Tx_updateStatus_to (tx_status tx)
                                       (stored_tx\<lparr>tx_txins := txins1\<rparr>)
                    in Inr (update_tx stored_tx1 db1, Some stored_tx1)))
         else (case merge_scripts cap (tx_txins stored_tx) (tx_txins tx) 0 db False of
                 Inl e \<Rightarrow> Inl e
               | Inr (txins1, db1, updated) \<Rightarrow>
                   Inr (db1, if updated then Some (stored_tx\<lparr>tx_txins := txins1\<rparr>) else None)))
      else
        (if tx_status tx \<noteq> UNSIGNED
         then (if tx_status_rank (tx_status tx) > tx_status_rank (tx_status stored_tx)
               then (let stored_tx1 = Tx_updateStatus_to (tx_status tx) stored_tx
                     in Inr (update_tx stored_tx1 db, Some stored_tx1))
               else Inr (db, None))
         else Inr (db, None)))"

subsubsection \<open>insertTx: a transaction that is not stored yet\<close>

record input_scan =
  conflicting_txs :: "nat list"
  sent_from_vault :: bool
  have_all_outpoints :: bool
  input_total :: uint64_t
  sending_account :: "nat option"

text \<open>
  The loop over the inputs. \<open>own_txins\<close> and \<open>own_tx\<close> are the ids of the incoming
  transaction's inputs and of the transaction: an outpoint whose back-link is one of
  these inputs was marked by an earlier round of this loop, and the conflicting
  transaction is then the incoming one. \<^verbatim>\<open>conflicting_txs\<close> holds a transaction once.
  \<^verbatim>\<open>outpoint->spent(txin)\<close> changes the shared object of the session, which every later
  load of the outpoint returns and which \<^verbatim>\<open>db_->update(txout)\<close> stores before the
  function returns a transaction: the model writes it to the store at once.
\<close>

fun check_inputs ::
  "nat list \<Rightarrow> nat \<Rightarrow> TxIn list \<Rightarrow> database \<Rightarrow> input_scan \<Rightarrow> error + (database \<times> input_scan)" where
  "check_inputs own_txins own_tx [] db st = Inr (db, st)"
| "check_inputs own_txins own_tx (txin # txins) db st =
     (case filter (\<lambda>t. tx_hash t = txin_outhash txin) (db_txs db) of
        [] \<Rightarrow> check_inputs own_txins own_tx txins db (st\<lparr>have_all_outpoints := False\<rparr>)
      | spent_tx # _ \<Rightarrow>
          (let outpoints = tx_txouts spent_tx;
               outindex = unat (txin_outindex txin)
           in if length outpoints \<le> outindex
              then Inl (RuntimeError ''Vault::insertTx_unwrapped - outpoint out of range.'')
              else
                (let outpoint = outpoints ! outindex
                 in case (case txout_spent outpoint of
                            None \<Rightarrow> Inr (conflicting_txs st)
                          | Some conflict_txin \<Rightarrow>
                              if conflict_txin \<in> set own_txins
                              then Inr (List.insert own_tx (conflicting_txs st))
                              else (case TxIn_tx db conflict_txin of
                                      Inl e \<Rightarrow> Inl e
                                    | Inr t \<Rightarrow> Inr (List.insert (tx_id t) (conflicting_txs st)))) of
                      Inl e \<Rightarrow> Inl e
                    | Inr conflicting \<Rightarrow>
                        (let st1 = st\<lparr>conflicting_txs := conflicting,
                                      input_total := input_total st + txout_value outpoint\<rparr>
                         in case filter (\<lambda>s. ss_txoutscript s = txout_script outpoint) (db_scripts db) of
                              [] \<Rightarrow> check_inputs own_txins own_tx txins db st1
                            | script # _ \<Rightarrow>
                                (let db1 = update_txout (TxOut_spent (Some (txin_id txin)) outpoint) db
                                 in case sending_account st1 of
                                      Some a \<Rightarrow>
                                        check_inputs own_txins own_tx txins db1
                                          (st1\<lparr>sent_from_vault := True\<rparr>)
                                    | None \<Rightarrow>
                                        (case load_bin db (ss_account_bin script) of
                                           Inl e \<Rightarrow> Inl e
                                         | Inr bin \<Rightarrow>
                                             (case load_account db (ab_account bin) of
                                                Inl e \<Rightarrow> Inl e
                                              | Inr account \<Rightarrow>
                                                  check_inputs own_txins own_tx txins db1
                                                    (st1\<lparr>sent_from_vault := True,
                                                         sending_account := Some (acc_id account)\<rparr>))))))))"

record output_scan =
  scripts :: "SigningScript list"
  sent_to_vault :: bool
  output_total :: uint64_t

text \<open>
  The loop over the outputs. \<open>scripts\<close> holds the script objects whose status the loop
  has changed; their rows are updated after the loop, so a query in between (the count
  of UNUSED scripts in the refill) still sees the old status, while loading the script
  again returns the changed object of the session. An \<^verbatim>\<open>AccountChainCodeLocked\<close> of the
  refill is caught.
\<close>

definition load_script :: "SigningScript list \<Rightarrow> SigningScript \<Rightarrow> SigningScript" where
  "load_script session row =
     (case filter (\<lambda>s. ss_id s = ss_id row) session of
        [] \<Rightarrow> row
      | script # _ \<Rightarrow> script)"

definition scripts_insert :: "SigningScript \<Rightarrow> SigningScript list \<Rightarrow> SigningScript list" where
  "scripts_insert script session = script # filter (\<lambda>s. ss_id s \<noteq> ss_id script) session"

definition refill_caught :: "'s env \<Rightarrow> AccountBin \<Rightarrow> Vault \<Rightarrow> Vault \<times> (error + unit)" where
  "refill_caught cap bin v =
     (case refillAccountBinPool_unwrapped cap bin v of
        (v1, Inl (AccountChainCodeLocked n l)) \<Rightarrow> (v1, Inr ())
      | r \<Rightarrow> r)"

definition mark_spent_out_of_order :: "database \<Rightarrow> bytes_t \<Rightarrow> TxOut \<Rightarrow> TxOut" where
  "mark_spent_out_of_order db hash txout =
     (case filter (\<lambda>i. txin_outhash i = hash \<and> txin_outindex i = txout_txindex txout) (db_txins db) of
        [] \<Rightarrow> txout
      | txin # _ \<Rightarrow> TxOut_spent (Some (txin_id txin)) txout)"

fun check_outputs ::
  "'s env \<Rightarrow> bytes_t \<Rightarrow> bool \<Rightarrow> nat option \<Rightarrow> TxOut list \<Rightarrow> Vault \<Rightarrow> output_scan \<Rightarrow>
   Vault \<times> (error + (TxOut list \<times> output_scan))" where
  "check_outputs cap hash from_vault sending [] v st = (v, Inr ([], st))"
| "check_outputs cap hash from_vault sending (txout # txouts) v st =
     (let st1 = st\<lparr>output_total := output_total st + txout_value txout\<rparr>
      in case filter (\<lambda>s. ss_txoutscript s = txout_script txout) (db_scripts (v_db v)) of
           [] \<Rightarrow>
             (let txout1 = (case sending of
                              None \<Rightarrow> txout
                            | Some a \<Rightarrow> txout\<lparr>txout_sending_account := Some a\<rparr>)
              in case check_outputs cap hash from_vault sending txouts v st1 of
                   (v1, Inl e) \<Rightarrow> (v1, Inl e)
                 | (v1, Inr (r, st2)) \<Rightarrow> (v1, Inr (txout1 # r, st2)))
         | row # _ \<Rightarrow>
             (let script = load_script (scripts st1) row;
                  txout1 = txout\<lparr>txout_signingscript := Some (ss_id script)\<rparr>;
                  st2 = st1\<lparr>sent_to_vault := True\<rparr>
              in case (case ss_status script of
                         UNUSED \<Rightarrow>
                           (case load_bin (v_db v) (ss_account_bin script) of
                              Inl e \<Rightarrow> (v, Inl e)
                            | Inr bin \<Rightarrow>
                                (let st3 = st2\<lparr>scripts := scripts_insert
                                             (script\<lparr>ss_status :=
                                                (if from_vault \<and> AccountBin_isChange cap bin
                                                 then CHANGE else USED)\<rparr>)
                                             (scripts st2)\<rparr>
                                 in case refill_caught cap bin v of
                                      (v1, Inl e) \<Rightarrow> (v1, Inl e)
                                    | (v1, Inr _) \<Rightarrow> (v1, Inr st3)))
                       | ISSUED \<Rightarrow>
                           (v, Inr (st2\<lparr>scripts := scripts_insert (script\<lparr>ss_status := USED\<rparr>)
                                                      (scripts st2)\<rparr>))
                       | _ \<Rightarrow> (v, Inr st2)) of
                   (v1, Inl e) \<Rightarrow> (v1, Inl e)
                 | (v1, Inr st3) \<Rightarrow>
                     (let txout2 = mark_spent_out_of_order (v_db v1) hash txout1
                      in case check_outputs cap hash from_vault sending txouts v1 st3 of
                           (v2, Inl e) \<Rightarrow> (v2, Inl e)
                         | (v2, Inr (r, st4)) \<Rightarrow> (v2, Inr (txout2 # r, st4)))))"

text \<open>
  The loop over \<^verbatim>\<open>conflicting_txs\<close>. Updating the incoming transaction itself, which is
  not persisted yet, throws.
\<close>

fun update_conflicting :: "nat list \<Rightarrow> database \<Rightarrow> error + database" where
  "update_conflicting [] db = Inr db"
| "update_conflicting (i # ids) db =
     (case filter (\<lambda>t. tx_id t = i) (db_txs db) of
        [] \<Rightarrow> Inl ObjectNotPersistent
      | conflicting_tx # _ \<Rightarrow>
          if tx_status conflicting_tx \<noteq> CONFIRMED
          then update_conflicting ids (update_tx (Tx_updateStatus_to CONFLICTING conflicting_tx) db)
          else update_conflicting ids db)"

definition insertTx_new :: "'s env \<Rightarrow> Tx \<Rightarrow> Vault \<Rightarrow> Vault \<times> (error + Tx option)" where
  "insertTx_new cap tx0 v =
     (let tx = Tx_assign_ids (v_db v) tx0
      in case check_inputs (map txin_id (tx_txins tx)) (tx_id tx) (tx_txins tx) (v_db v)
                \<lparr>conflicting_txs = [], sent_from_vault = False, have_all_outpoints = True,
                 input_total = 0, sending_account = None\<rparr> of
           Inl e \<Rightarrow> (v, Inl e)
         | Inr (db1, ins) \<Rightarrow>
             (case check_outputs cap (tx_hash tx) (sent_from_vault ins) (sending_account ins)
                     (tx_txouts tx) (v\<lparr>v_db := db1\<rparr>)
                     \<lparr>scripts = [], sent_to_vault = False, output_total = 0\<rparr> of
                (v2, Inl e) \<Rightarrow> (v2, Inl e)
              | (v2, Inr (txouts1, outs)) \<Rightarrow>
                  (let tx1 = tx\<lparr>tx_txouts := txouts1\<rparr>;
                       tx2 = (if conflicting_txs ins \<noteq> []
                              then Tx_updateStatus_to CONFLICTING tx1 else tx1)
                   in case update_conflicting (conflicting_txs ins) (v_db v2) of
                        Inl e \<Rightarrow> (v2, Inl e)
                      | Inr db3 \<Rightarrow>
                          if sent_from_vault ins \<or> sent_to_vault outs
                          then
                            (let tx3 = (if have_all_outpoints ins
                                        then tx2\<lparr>tx_fee := input_total ins - output_total outs\<rparr>
                                        else tx2);
                                 db4 = fold update_script (scripts outs) (persist_tx tx3 db3)
                             in if tx_status_rank (tx_status tx3) \<ge> tx_status_rank SENT
                                then (case updateConfirmations_unwrapped (Some tx3) db4 of
                                        Inl e \<Rightarrow> (v2\<lparr>v_db := db4\<rparr>, Inl e)
                                      | Inr (db5, count) \<Rightarrow> (v2\<lparr>v_db := db5\<rparr>, Inr (Some tx3)))
                                else (v2\<lparr>v_db := db4\<rparr>, Inr (Some tx3)))
                          else (v2\<lparr>v_db := db3\<rparr>, Inr None))))"

definition insertTx_unwrapped :: "'s env \<Rightarrow> Tx \<Rightarrow> Vault \<Rightarrow> Vault \<times> (error + Tx option)" where
  "insertTx_unwrapped cap tx0 v =
     (let tx = Tx_updateStatus cap tx0
      in case filter (\<lambda>t. tx_unsigned_hash t = tx_unsigned_hash tx) (db_txs (v_db v)) of
           stored_tx # _ \<Rightarrow>
             (case insertTx_duplicate cap tx stored_tx (v_db v) of
                Inl e \<Rightarrow> (v, Inl e)
              | Inr (db1, r) \<Rightarrow> (v\<lparr>v_db := db1\<rparr>, Inr r))
         | [] \<Rightarrow> insertTx_new cap tx v)"

subsubsection \<open>createTx\<close>

text \<open>
  The coin selection loop: the shuffled unspent outputs are taken in order until their
  total reaches the desired total; all amounts are \<^verbatim>\<open>uint64_t\<close>.
\<close>

fun select_utxos :: "TxOutView list \<Rightarrow> uint64_t \<Rightarrow> TxIn list \<Rightarrow> uint64_t \<Rightarrow> TxIn list \<times> uint64_t" where
  "select_utxos [] desired_total txins utxo_total = (txins, utxo_total)"
| "select_utxos (utxoview # utxoviews) desired_total txins utxo_total =
     (let utxo_total1 = utxo_total + view_value utxoview;
          txins1 = txins @ [new_TxIn (view_tx_hash utxoview) (view_tx_index utxoview)
                              (view_signingscript_txinscript utxoview) 0xffffffff]
      in if utxo_total1 \<ge> desired_total then (txins1, utxo_total1)
         else select_utxos utxoviews desired_total txins1 utxo_total1)"

definition createTx_unwrapped ::
  "'s env \<Rightarrow> string \<Rightarrow> uint32_t \<Rightarrow> uint32_t \<Rightarrow> TxOut list \<Rightarrow> uint64_t \<Rightarrow> Vault \<Rightarrow>
   Vault \<times> (error + Tx)" where
  "createTx_unwrapped cap account_name tx_version tx_locktime txouts fee v =
     (let desired_total = fold (\<lambda>txout utxo_total. utxo_total + txout_value txout) txouts fee
      in case getAccount_unwrapped (v_db v) account_name of
           Inl e \<Rightarrow> (v, Inl e)
         | Inr account \<Rightarrow>
             (case select_utxos
                     (random_shuffle_utxoviews cap (TxOutView_unspent (v_db v) (acc_id account)))
                     desired_total [] 0 of
                (txins, utxo_total) \<Rightarrow>
                  if utxo_total < desired_total
                  then (v, Inl (AccountInsufficientFunds account_name))
                  else
                    (let change = utxo_total - desired_total
                     in case (if change > 0
                              then (case getAccountBin_unwrapped (v_db v) account_name
                                           (CHANGE_BIN_NAME cap) of
                                      Inl e \<Rightarrow> (v, Inl e)
                                    | Inr bin \<Rightarrow>
                                        (case issueAccountBinSigningScript_unwrapped cap bin [] v of
                                           (v1, Inl e) \<Rightarrow> (v1, Inl e)
                                         | (v1, Inr changescript) \<Rightarrow>
                                             (v1, Inr (txouts @ [new_TxOut change changescript]))))
                              else (v, Inr txouts)) of
                          (v1, Inl e) \<Rightarrow> (v1, Inl e)
                        | (v1, Inr txouts1) \<Rightarrow>
                            (v1, Inr (Tx_set cap tx_version txins
                                        (random_shuffle_txouts cap txouts1) tx_locktime
                                        (time_now cap) UNSIGNED)))))"

subsubsection \<open>deleteTx\<close>

text \<open>
  The loop over the inputs of \<^verbatim>\<open>deleteTx_unwrapped\<close>: the outpoint whose back-link is
  the input is unspent, then the input is erased.
\<close>

fun delete_txins :: "TxIn list \<Rightarrow> database \<Rightarrow> database" where
  "delete_txins [] db = db"
| "delete_txins (txin # txins) db =
     delete_txins txins
       (erase_txin (txin_id txin)
          (case filter (\<lambda>x. txout_spent x = Some (txin_id txin)) (db_txouts db) of
             [] \<Rightarrow> db
           | txout # _ \<Rightarrow> update_txout (TxOut_spent None txout) db))"

text \<open>
  \<^verbatim>\<open>deleteTx_unwrapped\<close> calls itself for the transaction that spends an output. The
  recursion is bounded by a fuel argument: \<open>None\<close> means that the fuel ran out. The
  outputs are read as the session holds them when their turn comes, after the
  recursive calls for the earlier outputs.
\<close>

fun deleteTx_unwrapped :: "nat \<Rightarrow> Tx \<Rightarrow> database \<Rightarrow> (error + database) option"
  and delete_txouts :: "nat \<Rightarrow> nat list \<Rightarrow> database \<Rightarrow> (error + database) option" where
  "deleteTx_unwrapped 0 tx db = None"
| "deleteTx_unwrapped (Suc fuel) tx db =
     (case delete_txouts fuel (map txout_id (tx_txouts tx)) (delete_txins (tx_txins tx) db) of
        None \<Rightarrow> None
      | Some (Inl e) \<Rightarrow> Some (Inl e)
      | Some (Inr db1) \<Rightarrow> Some (Inr (erase_tx (tx_id tx) db1)))"
| "delete_txouts fuel [] db = Some (Inr db)"
| "delete_txouts fuel (i # ids) db =
     (case (case filter (\<lambda>x. txout_id x = i) (db_txouts db) of
              [] \<Rightarrow> Some (Inr db)
            | txout # _ \<Rightarrow>
                (case txout_spent txout of
                   None \<Rightarrow> Some (Inr db)
                 | Some txin \<Rightarrow>
                     (case TxIn_tx db txin of
                        Inl e \<Rightarrow> Some (Inl e)
                      | Inr t \<Rightarrow> deleteTx_unwrapped fuel t db))) of
        None \<Rightarrow> None
      | Some (Inl e) \<Rightarrow> Some (Inl e)
      | Some (Inr db1) \<Rightarrow> delete_txouts fuel ids (erase_txout i db1))"

subsubsection \<open>signTx\<close>

text \<open>
  \<^verbatim>\<open>key.root_keychain()\<close>: the row of the root keychain of a key.
\<close>

definition load_keychain :: "database \<Rightarrow> nat \<Rightarrow> error + Keychain" where
  "load_keychain db i =
     (case filter (\<lambda>k. kc_id k = i) (db_keychains db) of
        [] \<Rightarrow> Inl ObjectNotPersistent
      | keychain # _ \<Rightarrow> Inr keychain)"

definition SIGHASH_ALL :: "8 word" where
  "SIGHASH_ALL = 1"

text \<open>
  The loop over the private keys that can sign one input. It returns the script, the
  number of signatures added and the number still needed.
\<close>

fun sign_with_keys ::
  "'s env \<Rightarrow> Vault \<Rightarrow> bytes_t \<Rightarrow> Key list \<Rightarrow> 's \<Rightarrow> nat \<Rightarrow> nat \<Rightarrow> error + ('s \<times> nat \<times> nat)" where
  "sign_with_keys cap v signingHash [] script sigsadded sigsneeded =
     Inr (script, sigsadded, sigsneeded)"
| "sign_with_keys cap v signingHash (key # keys) script sigsadded sigsneeded =
     (case load_keychain (v_db v) (key_root_keychain key) of
        Inl e \<Rightarrow> Inl e
      | Inr root_keychain \<Rightarrow>
          (case tryUnlockKeychainPrivateKey_unwrapped cap root_keychain v of
             Inl e \<Rightarrow> Inl e
           | Inr False \<Rightarrow> sign_with_keys cap v signingHash keys script sigsadded sigsneeded
           | Inr True \<Rightarrow>
               (case tryUnlockKeychainChainCode_unwrapped cap root_keychain v of
                  Inl e \<Rightarrow> Inl e
                | Inr False \<Rightarrow> sign_with_keys cap v signingHash keys script sigsadded sigsneeded
                | Inr True \<Rightarrow>
                    (let privkey = Key_try_privkey cap key
                     in if secp256k1_getPubKey cap privkey \<noteq> key_pubkey key
                        then Inl (KeychainInvalidPrivateKey (kc_name root_keychain) (key_pubkey key))
                        else
                          (let signature = secp256k1_sign cap privkey signingHash @ [SIGHASH_ALL];
                               script1 = Script_addSig cap (key_pubkey key) signature script
                           in if sigsneeded - 1 = 0
                              then Inr (script1, sigsadded + 1, sigsneeded - 1)
                              else sign_with_keys cap v signingHash keys script1
                                     (sigsadded + 1) (sigsneeded - 1))))))"

text \<open>
  The loop over the inputs of \<^verbatim>\<open>signTx_unwrapped\<close>. \<open>tx\<close> is the transaction object,
  whose inputs before the current one already carry their new scripts.
\<close>

fun sign_txins ::
  "'s env \<Rightarrow> Vault \<Rightarrow> Tx \<Rightarrow> TxIn list \<Rightarrow> TxIn list \<Rightarrow> nat \<Rightarrow> error + (TxIn list \<times> nat)" where
  "sign_txins cap v tx done [] sigsadded = Inr (done, sigsadded)"
| "sign_txins cap v tx done (txin # txins) sigsadded =
     (let script = Script cap (txin_script txin);
          sigsneeded = Script_sigsneeded cap script
      in if sigsneeded = 0 then sign_txins cap v tx (done @ [txin]) txins sigsadded
         else
           (let pubkeys = Script_missingsigs cap script
            in if pubkeys = [] then sign_txins cap v tx (done @ [txin]) txins sigsadded
               else
                 (case filter (\<lambda>k. key_is_private k \<and> key_pubkey k \<in> set pubkeys)
                         (db_keys (v_db v)) of
                    [] \<Rightarrow> sign_txins cap v tx (done @ [txin]) txins sigsadded
                  | key_r \<Rightarrow>
                      (let signingHash =
                             Tx_signingHash cap (tx\<lparr>tx_txins := done @ txin # txins\<rparr>)
                               (unat (txin_txindex txin)) (Script_txinscript cap SIGN script)
                       in case sign_with_keys cap v signingHash key_r script sigsadded sigsneeded of
                            Inl e \<Rightarrow> Inl e
                          | Inr (script1, sigsadded1, sigsneeded1) \<Rightarrow>
                              sign_txins cap v tx
                                (done @ [txin\<lparr>txin_script :=
                                           Script_txinscript cap
                                             (if sigsneeded1 \<noteq> 0 then EDIT else BROADCAST) script1\<rparr>])
                                txins sigsadded1))))"

definition signTx_unwrapped :: "'s env \<Rightarrow> Vault \<Rightarrow> Tx \<Rightarrow> error + (Tx \<times> bool)" where
  "signTx_unwrapped cap v tx =
     (case sign_txins cap v tx [] (tx_txins tx) 0 of
        Inl e \<Rightarrow> Inl e
      | Inr (txins, sigsadded) \<Rightarrow>
          if sigsadded = 0 then Inr (tx\<lparr>tx_txins := txins\<rparr>, False)
          else Inr (Tx_updateStatus cap (tx\<lparr>tx_txins := txins\<rparr>), True))"

subsection \<open>The public operations\<close>

text \<open>
  A public operation locks the mutex, begins a persistence transaction on the store
  and calls the unwrapped operation. Modelled from the spec: the transaction object is
  declared outside \<^verbatim>\<open>Vault.cpp\<close>. By sections 4.G, 6 and 7 of the specification the
  changes of an operation reach the store when \<^verbatim>\<open>t.commit()\<close> is called, and a
  transaction that ends without it (an exception, or a return that skips the commit) is
  rolled back: the store is as it was when the operation began. \<open>rollback v v1\<close> is the
  vault after an operation that began at \<open>v\<close>, reached \<open>v1\<close> and did not commit; an
  operation that commits leaves \<open>v1\<close>.
\<close>

definition rollback :: "Vault \<Rightarrow> Vault \<Rightarrow> Vault" where
  "rollback v v1 = v1\<lparr>v_db := v_db v\<rparr>"

definition getTx :: "bytes_t \<Rightarrow> Vault \<Rightarrow> Vault \<times> (error + Tx)" where
  "getTx hash v = (v, getTx_unwrapped (v_db v) hash)"

definition insertTx :: "'s env \<Rightarrow> Tx \<Rightarrow> Vault \<Rightarrow> Vault \<times> (error + Tx option)" where
  "insertTx cap tx v =
     (case insertTx_unwrapped cap tx v of
        (v1, Inr (Some tx1)) \<Rightarrow> (v1, Inr (Some tx1))
      | (v1, r) \<Rightarrow> (rollback v v1, r))"

definition createTx ::
  "'s env \<Rightarrow> string \<Rightarrow> uint32_t \<Rightarrow> uint32_t \<Rightarrow> TxOut list \<Rightarrow> uint64_t \<Rightarrow> bool \<Rightarrow> Vault \<Rightarrow>
   Vault \<times> (error + Tx option)" where
  "createTx cap account_name tx_version tx_locktime txouts fee do_insert v =
     (case createTx_unwrapped cap account_name tx_version tx_locktime txouts fee v of
        (v1, Inl e) \<Rightarrow> (rollback v v1, Inl e)
      | (v1, Inr tx) \<Rightarrow>
          if do_insert
          then (case insertTx_unwrapped cap tx v1 of
                  (v2, Inr (Some tx1)) \<Rightarrow> (v2, Inr (Some tx1))
                | (v2, r) \<Rightarrow> (rollback v v2, r))
          else (rollback v v1, Inr (Some tx)))"

definition deleteTx :: "nat \<Rightarrow> bytes_t \<Rightarrow> Vault \<Rightarrow> (Vault \<times> (error + unit)) option" where
  "deleteTx fuel hash v =
     (case filter (\<lambda>t. tx_hash t = hash \<or> tx_unsigned_hash t = hash) (db_txs (v_db v)) of
        [] \<Rightarrow> Some (v, Inl (TxNotFound hash))
      | tx # _ \<Rightarrow>
          (case deleteTx_unwrapped fuel tx (v_db v) of
             None \<Rightarrow> None
           | Some (Inl e) \<Rightarrow> Some (v, Inl e)
           | Some (Inr db1) \<Rightarrow> Some (v\<lparr>v_db := db1\<rparr>, Inr ())))"

definition signTx :: "'s env \<Rightarrow> bytes_t \<Rightarrow> bool \<Rightarrow> Vault \<Rightarrow> Vault \<times> (error + bool)" where
  "signTx cap unsigned_hash update v =
     (case filter (\<lambda>t. tx_unsigned_hash t = unsigned_hash) (db_txs (v_db v)) of
        [] \<Rightarrow> (v, Inl (TxNotFound unsigned_hash))
      | tx # _ \<Rightarrow>
          (case signTx_unwrapped cap v tx of
             Inl e \<Rightarrow> (v, Inl e)
           | Inr (tx1, rval) \<Rightarrow>
               if rval \<and> update then (v\<lparr>v_db := update_tx tx1 (v_db v)\<rparr>, Inr rval)
               else (v, Inr rval)))"

definition issueSigningScript ::
  "'s env \<Rightarrow> string \<Rightarrow> string \<Rightarrow> string \<Rightarrow> Vault \<Rightarrow> Vault \<times> (error + SigningScript)" where
  "issueSigningScript cap account_name bin_name label v =
     (case getAccountBin_unwrapped (v_db v) account_name bin_name of
        Inl e \<Rightarrow> (v, Inl e)
      | Inr bin \<Rightarrow>
          (case issueAccountBinSigningScript_unwrapped cap bin label v of
             (v1, Inl e) \<Rightarrow> (rollback v v1, Inl e)
           | (v1, Inr script) \<Rightarrow> (v1, Inr script)))"

text \<open>\<^verbatim>\<open>insertMerkleBlock\<close> returns the result of the unwrapped operation; it has no
  \<^verbatim>\<open>t.commit()\<close>.\<close>

definition insertMerkleBlock ::
  "uint32_t \<Rightarrow> MerkleBlock \<Rightarrow> Vault \<Rightarrow> Vault \<times> (error + bool)" where
  "insertMerkleBlock TIME_HORIZON_WINDOW merkleblock v =
     (case insertMerkleBlock_unwrapped TIME_HORIZON_WINDOW merkleblock (v_db v) of
        Inl e \<Rightarrow> (v, Inl e)
      | Inr (db1, r) \<Rightarrow> (rollback v (v\<lparr>v_db := db1\<rparr>), Inr r))"

section \<open>Notions used in the statements\<close>

subsection \<open>The duplicate rules in the words of the specification\<close>

text \<open>
  Section 4.E.1 of the specification describes what \<^verbatim>\<open>insert_tx\<close> does with a stored
  transaction of the same unsigned hash, input by input: the stored script is
  overwritten with the incoming one, or the signatures of the incoming script are
  merged into the stored one and the input is rewritten in EDIT form when the merge
  added a signature. These definitions follow that text; the theorems compare them
  with \<open>replace_scripts\<close> and \<open>merge_scripts\<close>.
\<close>

definition spec_replace_input :: "TxIn \<Rightarrow> TxIn \<Rightarrow> TxIn" where
  "spec_replace_input stored incoming = stored\<lparr>txin_script := txin_script incoming\<rparr>"

definition spec_sigs_added :: "'s env \<Rightarrow> TxIn \<Rightarrow> TxIn \<Rightarrow> nat" where
  "spec_sigs_added cap stored incoming =
     snd (Script_mergesigs cap (Script cap (txin_script stored)) (Script cap (txin_script incoming)))"

definition spec_merge_input :: "'s env \<Rightarrow> TxIn \<Rightarrow> TxIn \<Rightarrow> TxIn" where
  "spec_merge_input cap stored incoming =
     (if spec_sigs_added cap stored incoming > 0
      then stored\<lparr>txin_script := Script_txinscript cap EDIT
             (fst (Script_mergesigs cap (Script cap (txin_script stored))
                     (Script cap (txin_script incoming))))\<rparr>
      else stored)"

subsection \<open>Spent status and back-link\<close>

text \<open>
  An output is consistent when its status is SPENT exactly when its back-link is set.
  \<open>spec_spent_iff_live_spender\<close> is the invariant in the words of the specification
  (section 5): an output is SPENT exactly when some stored input with its outpoint
  belongs to a transaction that is not CONFLICTING.
\<close>

definition TxOut_consistent :: "TxOut \<Rightarrow> bool" where
  "TxOut_consistent txout = ((txout_status txout = SPENT) = (txout_spent txout \<noteq> None))"

definition spent_links_consistent :: "database \<Rightarrow> bool" where
  "spent_links_consistent db = list_all (\<lambda>t. list_all TxOut_consistent (tx_txouts t)) (db_txs db)"


subsection \<open>Identifiers and the scan of the inputs\<close>

text \<open>
  The ids of the stored transactions are distinct and below the counter that
  \<^verbatim>\<open>db_->persist\<close> takes the next id from. \<open>links_extended own db0 db\<close> relates the
  store before the scan of the inputs with the store during the scan: the
  transactions are the same up to their outputs, and an output has the back-link it
  had or one of the inputs \<open>own\<close> of the incoming transaction.
\<close>

definition Tx_without_txouts :: "Tx \<Rightarrow> Tx" where
  "Tx_without_txouts t = t\<lparr>tx_txouts := []\<rparr>"

definition wf_ids :: "database \<Rightarrow> bool" where
  "wf_ids db =
     (distinct (map tx_id (db_txs db)) \<and> list_all (\<lambda>t. tx_id t < db_next_tx_id db) (db_txs db))"

definition links_extended :: "nat list \<Rightarrow> database \<Rightarrow> database \<Rightarrow> bool" where
  "links_extended own db0 db =
     list_all2 (\<lambda>t0 t. Tx_without_txouts t = Tx_without_txouts t0 \<and>
                  list_all2 (\<lambda>x0 x. txout_spent x = txout_spent x0 \<or>
                                     (\<exists>i \<in> set own. txout_spent x = Some i))
                    (tx_txouts t0) (tx_txouts t))
       (db_txs db0) (db_txs db)"

subsection \<open>Outpoints and the marks of an insertion\<close>

text \<open>
  \<open>outpoint_of db txin\<close> is the stored output that \<^verbatim>\<open>insertTx_unwrapped\<close> finds for an
  input: the output at position \<^verbatim>\<open>outindex\<close> of the first stored transaction whose hash
  is \<^verbatim>\<open>outhash\<close>. An output is owned when a signing script of the vault has its script.
  \<open>TxOut_unlinked\<close> forgets the back-link and the status of an output;
  \<open>marks_added mk db0 db\<close> relates two stores whose transactions are the same up to
  outputs that were given a back-link satisfying \<open>mk\<close>. \<open>tx_tables\<close> are the rows of the
  transactions with the counters their ids come from, \<open>Tx_links\<close> is what the links
  between inputs and outputs depend on, and \<open>wf_store\<close> says that the ids of the stored
  transactions, inputs and outputs are distinct and below these counters.
  \<open>TxOut_arrives stored hash x x1\<close> relates an output \<open>x\<close> of an incoming transaction with
  the output \<open>x1\<close> that is stored for it: the back-link is the one it came with, or a
  stored input that spends it.
\<close>

definition outpoint_of :: "database \<Rightarrow> TxIn \<Rightarrow> (Tx \<times> TxOut) option" where
  "outpoint_of db txin =
     (case filter (\<lambda>t. tx_hash t = txin_outhash txin) (db_txs db) of
        [] \<Rightarrow> None
      | spent_tx # _ \<Rightarrow>
          if unat (txin_outindex txin) < length (tx_txouts spent_tx)
          then Some (spent_tx, tx_txouts spent_tx ! unat (txin_outindex txin))
          else None)"

definition TxOut_owned :: "database \<Rightarrow> TxOut \<Rightarrow> bool" where
  "TxOut_owned db txout =
     (filter (\<lambda>s. ss_txoutscript s = txout_script txout) (db_scripts db) \<noteq> [])"

definition TxOut_unlinked :: "TxOut \<Rightarrow> TxOut" where
  "TxOut_unlinked x = x\<lparr>txout_spent := None, txout_status := UNSPENT\<rparr>"

definition marks_added :: "(Tx \<Rightarrow> TxOut \<Rightarrow> bool) \<Rightarrow> database \<Rightarrow> database \<Rightarrow> bool" where
  "marks_added mk db0 db =
     list_all2 (\<lambda>t0 t. Tx_without_txouts t = Tx_without_txouts t0 \<and>
                  list_all2 (\<lambda>x0 x. x = x0 \<or> (TxOut_unlinked x = TxOut_unlinked x0 \<and> mk t0 x))
                    (tx_txouts t0) (tx_txouts t))
       (db_txs db0) (db_txs db)"

definition tx_tables :: "database \<Rightarrow> Tx list \<times> nat \<times> nat \<times> nat" where
  "tx_tables db = (db_txs db, db_next_tx_id db, db_next_txin_id db, db_next_txout_id db)"

definition Tx_links :: "Tx \<Rightarrow> nat \<times> bytes_t \<times> TxIn list \<times> TxOut list" where
  "Tx_links t = (tx_id t, tx_hash t, tx_txins t, tx_txouts t)"

definition wf_store :: "database \<Rightarrow> bool" where
  "wf_store db =
     (distinct (map tx_id (db_txs db)) \<and>
      list_all (\<lambda>t. tx_id t < db_next_tx_id db) (db_txs db) \<and>
      distinct (map txin_id (db_txins db)) \<and>
      list_all (\<lambda>i. txin_id i < db_next_txin_id db) (db_txins db) \<and>
      distinct (map txout_id (db_txouts db)) \<and>
      list_all (\<lambda>x. txout_id x < db_next_txout_id db) (db_txouts db))"

definition TxOut_arrives :: "TxIn list \<Rightarrow> bytes_t \<Rightarrow> TxOut \<Rightarrow> TxOut \<Rightarrow> bool" where
  "TxOut_arrives stored hash x x1 =
     (txout_id x1 = txout_id x \<and> txout_txindex x1 = txout_txindex x \<and>
      txout_script x1 = txout_script x \<and>
      ((txout_spent x1 = txout_spent x \<and> txout_status x1 = txout_status x) \<or>
       (txout_status x1 = SPENT \<and>
        (\<exists>a \<in> set stored. txout_spent x1 = Some (txin_id a) \<and> txin_outhash a = hash \<and>
                            txin_outindex a = txout_txindex x))))"

section \<open>Example states\<close>

text \<open>
  A store without transactions, and a store whose only transaction is linked to a
  header of timestamp 1000; two orphan blocks (their predecessor is not stored).
\<close>

definition db_empty :: database where
  "db_empty =
     \<lparr>db_blockheaders = [], db_merkleblocks = [], db_txs = [], db_keychains = [],
      db_keys = [], db_accounts = [], db_bins = [], db_scripts = [],
      db_next_blockheader_id = 1, db_next_merkleblock_id = 1, db_next_tx_id = 1,
      db_next_txin_id = 1, db_next_txout_id = 1, db_next_key_id = 1,
      db_next_script_id = 1\<rparr>"

definition header_a :: BlockHeader where
  "header_a = \<lparr>bh_id = 1, bh_hash = [0xa], bh_prevhash = [0x9], bh_height = 10,
               bh_timestamp = 1000\<rparr>"

definition tx_a :: Tx where
  "tx_a = \<lparr>tx_id = 1, tx_hash = [0x1], tx_unsigned_hash = [0x2], tx_status = CONFIRMED,
           tx_blockheader = Some 1, tx_blockindex = 0xffffffff, tx_fee = 0,
           tx_timestamp = 990, tx_txins = [], tx_txouts = []\<rparr>"

definition db_one_tx :: database where
  "db_one_tx = db_empty\<lparr>db_blockheaders := [header_a], db_txs := [tx_a],
                 db_next_blockheader_id := 2, db_next_tx_id := 2\<rparr>"

definition orphan_block :: MerkleBlock where
  "orphan_block =
     \<lparr>mb_blockheader = \<lparr>bh_id = 0, bh_hash = [0xc], bh_prevhash = [0xb], bh_height = 12,
                         bh_timestamp = 2000\<rparr>,
      mb_hashes = []\<rparr>"

text \<open>
  A chain with a reorganisation ahead: headers at heights 6 and 7, three confirmed
  transactions linked to the header at height 7. The merkle block of height 6 also
  lists the first transaction. The incoming block has height 7, follows the header at
  height 6 and lists the third transaction.
\<close>

definition header_6 :: BlockHeader where
  "header_6 = \<lparr>bh_id = 1, bh_hash = [0x6], bh_prevhash = [0x5], bh_height = 6, bh_timestamp = 600\<rparr>"

definition header_7 :: BlockHeader where
  "header_7 = \<lparr>bh_id = 2, bh_hash = [0x7], bh_prevhash = [0x6], bh_height = 7, bh_timestamp = 700\<rparr>"

definition confirmed_tx :: "nat \<Rightarrow> bytes_t \<Rightarrow> nat option \<Rightarrow> Tx" where
  "confirmed_tx i h b =
     \<lparr>tx_id = i, tx_hash = h, tx_unsigned_hash = 0 # h, tx_status = CONFIRMED,
      tx_blockheader = b, tx_blockindex = 0xffffffff, tx_fee = 0, tx_timestamp = 0,
      tx_txins = [], tx_txouts = []\<rparr>"

definition db_reorg :: database where
  "db_reorg = db_empty
     \<lparr>db_blockheaders := [header_6, header_7],
      db_merkleblocks := [\<lparr>mbr_id = 1, mbr_blockheader = 1, mbr_hashes = [[0x58]]\<rparr>,
                          \<lparr>mbr_id = 2, mbr_blockheader = 2, mbr_hashes = [[0x58], [0x59], [0x5a]]\<rparr>],
      db_txs := [confirmed_tx 1 [0x58] (Some 2), confirmed_tx 2 [0x59] (Some 2),
                 confirmed_tx 3 [0x5a] (Some 2)],
      db_next_blockheader_id := 3, db_next_merkleblock_id := 3, db_next_tx_id := 4\<rparr>"

definition mb_reorg :: MerkleBlock where
  "mb_reorg =
     \<lparr>mb_blockheader = \<lparr>bh_id = 0, bh_hash = [0x77], bh_prevhash = [0x6], bh_height = 7,
                         bh_timestamp = 710\<rparr>,
      mb_hashes = [[0x5a]]\<rparr>"

definition db_reorg_after :: database where
  "db_reorg_after = db_empty
     \<lparr>db_blockheaders := [header_6, \<lparr>bh_id = 3, bh_hash = [0x77], bh_prevhash = [0x6], bh_height = 7,
                         bh_timestamp = 710\<rparr>],
      db_merkleblocks := [\<lparr>mbr_id = 1, mbr_blockheader = 1, mbr_hashes = [[0x58]]\<rparr>,
                          \<lparr>mbr_id = 3, mbr_blockheader = 3, mbr_hashes = [[0x5a]]\<rparr>],
      db_txs := [confirmed_tx 1 [0x58] (Some 1), confirmed_tx 2 [0x59] None,
                 confirmed_tx 3 [0x5a] (Some 3)],
      db_next_blockheader_id := 4, db_next_merkleblock_id := 4, db_next_tx_id := 4\<rparr>"

text \<open>
  A toy instance of the external collaborators. A script is a list of signature slots,
  one byte each: 0 is the placeholder of a missing signature. Slot \<open>k\<close> belongs to the
  public key \<open>[k]\<close>; a private key is its public key; a keychain accepts the key that
  equals its hash.
\<close>

definition toy_mergesigs :: "bytes_t \<Rightarrow> bytes_t \<Rightarrow> bytes_t \<times> nat" where
  "toy_mergesigs s other =
     (map (\<lambda>(a, b). if a = 0 then b else a) (zip s other),
      length (filter (\<lambda>(a, b). a = 0 \<and> b \<noteq> 0) (zip s other)))"

definition env0 :: "bytes_t env" where
  "env0 =
     \<lparr>CHANGE_BIN_NAME = ''@change'',
      Keychain_unlockChainCode = (\<lambda>keychain key. key = kc_hash keychain),
      Keychain_unlockPrivateKey = (\<lambda>keychain key. key = kc_hash keychain),
      AccountBin_newSigningScript =
        (\<lambda>account bin. ([0], [of_nat (ab_id bin), of_nat (unat (ab_next_script_index bin))], [])),
      Script = (\<lambda>b. b),
      Script_sigsneeded = (\<lambda>s. length (filter (\<lambda>x. x = 0) s)),
      Script_missingsigs = (\<lambda>s. map (\<lambda>k. [of_nat k]) (filter (\<lambda>k. s ! k = 0) [0..<length s])),
      Script_addSig = (\<lambda>pubkey sig s. s[unat (hd pubkey) := hd sig]),
      Script_mergesigs = toy_mergesigs,
      Script_txinscript = (\<lambda>sigtype s. s),
      Key_try_privkey = (\<lambda>key. key_pubkey key),
      secp256k1_getPubKey = (\<lambda>privkey. privkey),
      secp256k1_sign = (\<lambda>privkey h. [7]),
      Tx_signingHash = (\<lambda>tx i script. []),
      Tx_computeHash = (\<lambda>version txins txouts locktime. [0x48]),
      Tx_computeUnsignedHash = (\<lambda>version txins txouts locktime. [0x55]),
      random_shuffle_utxoviews = (\<lambda>xs. xs),
      random_shuffle_txouts = (\<lambda>xs. xs),
      time_now = 0\<rparr>"

text \<open>
  A store with one keychain, one account with its change bin and its default bin, three
  signing scripts and a confirmed transaction whose first output belongs to the
  account (script \<open>[0xd0]\<close>) and whose second output is foreign.
\<close>

definition script_of :: "nat \<Rightarrow> nat \<Rightarrow> uint32_t \<Rightarrow> script_status \<Rightarrow> bytes_t \<Rightarrow> SigningScript" where
  "script_of i bin index status txoutscript =
     \<lparr>ss_id = i, ss_account_bin = bin, ss_index = index, ss_status = status, ss_label = [],
      ss_txinscript = [0], ss_txoutscript = txoutscript\<rparr>"

definition funding_tx :: Tx where
  "funding_tx =
     \<lparr>tx_id = 1, tx_hash = [0xf0], tx_unsigned_hash = [0xf1], tx_status = CONFIRMED,
      tx_blockheader = None, tx_blockindex = 0, tx_fee = 0, tx_timestamp = 0,
      tx_txins = [],
      tx_txouts = [\<lparr>txout_id = 1, txout_value = 10, txout_script = [0xd0], txout_txindex = 0,
                     txout_signingscript = Some 3, txout_spent = None,
                     txout_sending_account = None, txout_status = UNSPENT\<rparr>,
                   \<lparr>txout_id = 2, txout_value = 20, txout_script = [0xee], txout_txindex = 1,
                     txout_signingscript = None, txout_spent = None,
                     txout_sending_account = None, txout_status = UNSPENT\<rparr>]\<rparr>"

definition db_acct :: database where
  "db_acct = db_empty
     \<lparr>db_txs := [funding_tx],
      db_keychains := [\<lparr>kc_id = 1, kc_name = ''k'', kc_hash = [1]\<rparr>],
      db_keys := [\<lparr>key_id = 1, key_pubkey = [0], key_is_private = True, key_root_keychain = 1\<rparr>],
      db_accounts := [\<lparr>acc_id = 1, acc_name = ''acct'', acc_keychains = [1],
                        acc_unused_pool_size = 1\<rparr>],
      db_bins := [\<lparr>ab_id = 1, ab_account = 1, ab_name = ''@change'', ab_next_script_index = 1\<rparr>,
                  \<lparr>ab_id = 2, ab_account = 1, ab_name = ''@default'', ab_next_script_index = 2\<rparr>],
      db_scripts := [script_of 1 1 0 UNUSED [0xc0], script_of 3 2 0 ISSUED [0xd0],
                     script_of 4 2 1 UNUSED [0xd1]],
      db_next_tx_id := 2, db_next_txout_id := 3, db_next_key_id := 2, db_next_script_id := 5\<rparr>"

text \<open>A vault over a store, with nothing unlocked.\<close>

definition vault_of :: "database \<Rightarrow> Vault" where
  "vault_of db = \<lparr>v_db = db, mapChainCodeUnlock = Map.empty, mapPrivateKeyUnlock = Map.empty\<rparr>"

definition pay_out :: "uint64_t \<Rightarrow> bytes_t \<Rightarrow> TxOut" where
  "pay_out v script =
     \<lparr>txout_id = 0, txout_value = v, txout_script = script, txout_txindex = 0,
      txout_signingscript = None, txout_spent = None, txout_sending_account = None,
      txout_status = UNSPENT\<rparr>"

text \<open>
  A transaction with one input. \<open>db_dup\<close> stores an unsigned transaction whose input
  needs two signatures; \<open>db_sign\<close> stores one whose input needs the signature of the
  key of keychain \<open>k\<close>, and \<open>db_signed\<close> stores it signed. \<open>vault_unlocked\<close> holds the
  unlock keys of the keychain.
\<close>

definition spend_tx ::
  "nat \<Rightarrow> bytes_t \<Rightarrow> bytes_t \<Rightarrow> tx_status \<Rightarrow> nat \<Rightarrow> bytes_t \<Rightarrow> uint32_t \<Rightarrow> bytes_t \<Rightarrow> TxOut list \<Rightarrow> Tx" where
  "spend_tx i h uh status txin_i outhash outindex script outs =
     \<lparr>tx_id = i, tx_hash = h, tx_unsigned_hash = uh, tx_status = status,
      tx_blockheader = None, tx_blockindex = 0, tx_fee = 0, tx_timestamp = 0,
      tx_txins = [\<lparr>txin_id = txin_i, txin_outhash = outhash, txin_outindex = outindex,
                   txin_script = script, txin_sequence = 0xffffffff, txin_txindex = 0\<rparr>],
      tx_txouts = outs\<rparr>"

definition db_dup :: database where
  "db_dup = db_acct
     \<lparr>db_txs := [funding_tx, spend_tx 2 [0x21] [0x22] UNSIGNED 1 [0xf0] 0 [0, 0] []],
      db_next_tx_id := 3, db_next_txin_id := 2\<rparr>"

definition vault_unlocked :: "database \<Rightarrow> Vault" where
  "vault_unlocked db =
     \<lparr>v_db = db, mapChainCodeUnlock = [''k'' \<mapsto> [1]], mapPrivateKeyUnlock = [''k'' \<mapsto> [1]]\<rparr>"

definition db_sign :: database where
  "db_sign = db_acct
     \<lparr>db_txs := [funding_tx, spend_tx 2 [0x21] [0x22] UNSIGNED 1 [0xf0] 0 [0] []],
      db_next_tx_id := 3, db_next_txin_id := 2\<rparr>"

definition db_signed :: database where
  "db_signed = db_sign\<lparr>db_txs := [funding_tx, spend_tx 2 [0x21] [0x22] UNSENT 1 [0xf0] 0 [7] []]\<rparr>"

text \<open>
  Two transactions that spend output 0 of the funding transaction, which pays to a
  script of the account, and two that spend output 0 of a transaction the vault does
  not store. \<open>db_T1\<close> is the store after the insertion of \<open>tx_T1\<close> into \<open>db_acct\<close>,
  \<open>stored_T2\<close> the transaction that the insertion of \<open>tx_T2\<close> into \<open>db_T1\<close> returns, and
  \<open>db_T3\<close> the store after the insertion of \<open>tx_T3\<close> into \<open>db_acct\<close>.
\<close>

definition tx_T1 :: Tx where
  "tx_T1 = spend_tx 0 [0x11] [0x12] PROPAGATED 0 [0xf0] 0 [5] [pay_out 9 [0xee]]"

definition tx_T2 :: Tx where
  "tx_T2 = spend_tx 0 [0x13] [0x14] PROPAGATED 0 [0xf0] 0 [6] [pay_out 8 [0xee]]"

definition tx_T3 :: Tx where
  "tx_T3 = spend_tx 0 [0x15] [0x16] PROPAGATED 0 [0xaa] 0 [5] [pay_out 4 [0xd0]]"

definition tx_T4 :: Tx where
  "tx_T4 = spend_tx 0 [0x17] [0x18] PROPAGATED 0 [0xaa] 0 [6] [pay_out 4 [0xd0]]"

definition db_T1 :: database where
  "db_T1 = db_acct
     \<lparr>db_txs :=
        [funding_tx\<lparr>tx_txouts := [TxOut_spent (Some 1) (hd (tx_txouts funding_tx)),
                                  last (tx_txouts funding_tx)]\<rparr>,
         (spend_tx 2 [0x11] [0x12] PROPAGATED 1 [0xf0] 0 [5]
            [(pay_out 9 [0xee])\<lparr>txout_id := 3, txout_sending_account := Some 1\<rparr>])\<lparr>tx_fee := 1\<rparr>],
      db_next_tx_id := 3, db_next_txin_id := 2, db_next_txout_id := 4\<rparr>"

definition stored_T2 :: Tx where
  "stored_T2 =
     (spend_tx 3 [0x13] [0x14] CONFLICTING 2 [0xf0] 0 [6]
        [(pay_out 8 [0xee])\<lparr>txout_id := 4, txout_sending_account := Some 1\<rparr>])\<lparr>tx_fee := 2\<rparr>"

definition db_T3 :: database where
  "db_T3 = db_acct
     \<lparr>db_txs :=
        [funding_tx,
         spend_tx 2 [0x15] [0x16] PROPAGATED 1 [0xaa] 0 [5]
           [(pay_out 4 [0xd0])\<lparr>txout_id := 3, txout_signingscript := Some 3\<rparr>]],
      db_scripts := [script_of 1 1 0 UNUSED [0xc0], script_of 3 2 0 USED [0xd0],
                     script_of 4 2 1 UNUSED [0xd1]],
      db_next_tx_id := 3, db_next_txin_id := 2, db_next_txout_id := 4\<rparr>"

section \<open>Verified properties\<close>

subsection \<open>Auxiliary facts\<close>

lemma word32_le_max: "\<not> (x :: 32 word) > 0xffffffff"
proof -
  have "unat x < 2 ^ 32" using unsigned_less [of x, where ?'a = nat] by simp
  then show ?thesis by (simp add: word_less_nat_alt)
qed

lemma horizon_empty: "db_txs db = [] \<Longrightarrow> getHorizonTimestamp_unwrapped db = 0xffffffff"
  by (simp add: getHorizonTimestamp_unwrapped_def HorizonTimestampView_def)

lemma updateConfirmations_no_txs:
  "db_txs db = [] \<Longrightarrow> updateConfirmations_unwrapped None db = Inr (db, 0)"
  by (simp add: updateConfirmations_unwrapped_def ConfirmedTxView_def)

lemma disconnect_txs_empty: "db_txs db = [] \<Longrightarrow> db_txs (disconnect_blocks hs db) = []"
  by (induction hs arbitrary: db) auto

lemma reorg_txs_empty: "db_txs db = [] \<Longrightarrow> db_txs (reorg H db) = []"
  by (auto simp: reorg_def Let_def disconnect_txs_empty split: list.splits)

lemma insertMerkleBlock_no_txs:
  "db_txs db = [] \<Longrightarrow>
   insertMerkleBlock_unwrapped W mb db =
     (if filter (\<lambda>h. bh_hash h = bh_hash (mb_blockheader mb)) (db_blockheaders db) \<noteq> []
      then Inr (db, False)
      else Inr (connect_txs (db_next_blockheader_id (reorg (bh_height (mb_blockheader mb)) db))
                  (mb_hashes mb)
                  (persist_merkleblock mb (reorg (bh_height (mb_blockheader mb)) db)), True))"
  by (simp add: insertMerkleBlock_unwrapped_def Let_def horizon_empty word32_le_max
       updateConfirmations_no_txs reorg_txs_empty connect_txs_def persist_merkleblock_def)

lemma filter_Cons_props: "filter P xs = y # ys \<Longrightarrow> P y \<and> y \<in> set xs"
  by (auto dest!: filter_eq_ConsD)

lemma getTx_found_iff:
  "(getTx_unwrapped db h = Inl (TxNotFound h)) =
   (\<not> (\<exists>t \<in> set (db_txs db). tx_hash t = h \<or> tx_unsigned_hash t = h))"
  by (auto simp: getTx_unwrapped_def filter_empty_conv split: list.splits dest: filter_Cons_props)

lemma disconnect_blocks_headers [simp]:
  "db_blockheaders (disconnect_blocks hs db) = db_blockheaders db"
  by (induction hs arbitrary: db) auto

lemma disconnect_blocks_next [simp]:
  "db_next_blockheader_id (disconnect_blocks hs db) = db_next_blockheader_id db"
  "db_next_merkleblock_id (disconnect_blocks hs db) = db_next_merkleblock_id db"
  by (induction hs arbitrary: db) auto

lemma disconnect_blocks_merkleblocks:
  "db_merkleblocks (disconnect_blocks hs db) =
     filter (\<lambda>m. \<not> (\<exists>h \<in> set hs. mbr_blockheader m = bh_id h)) (db_merkleblocks db)"
proof (induction hs arbitrary: db)
  case Nil
  then show ?case by simp
next
  case (Cons a hs)
  show ?case
    by (simp add: Cons.IH)
qed

lemma disconnect_blocks_txs:
  "db_txs (disconnect_blocks hs db) =
     map (\<lambda>t. if \<exists>h \<in> set hs. tx_blockheader t = Some (bh_id h)
               then Tx_blockheader None t else t) (db_txs db)"
proof (induction hs arbitrary: db)
  case Nil
  then show ?case by simp
next
  case (Cons a hs)
  show ?case
    by (simp add: Cons.IH) (auto simp: Tx_blockheader_def)
qed

lemma reorg_alt:
  "reorg H db =
     (if filter (\<lambda>h. H \<le> bh_height h) (db_blockheaders db) = [] then db
      else (disconnect_blocks (filter (\<lambda>h. H \<le> bh_height h) (db_blockheaders db)) db)
             \<lparr>db_blockheaders := filter (\<lambda>h. \<not> H \<le> bh_height h) (db_blockheaders db)\<rparr>)"
  by (simp add: reorg_def Let_def split: list.splits)

lemma reorg_headers:
  "db_blockheaders (reorg H db) = filter (\<lambda>h. \<not> H \<le> bh_height h) (db_blockheaders db)"
  by (auto simp: reorg_alt filter_empty_conv intro!: filter_True[symmetric])

lemma reorg_merkleblocks:
  "db_merkleblocks (reorg H db) =
     filter (\<lambda>m. \<not> (\<exists>h \<in> set (db_blockheaders db). H \<le> bh_height h \<and> mbr_blockheader m = bh_id h))
       (db_merkleblocks db)"
  by (auto simp: reorg_alt filter_empty_conv disconnect_blocks_merkleblocks
        intro!: filter_True[symmetric] filter_cong)

lemma reorg_txs:
  "db_txs (reorg H db) =
     map (\<lambda>t. if \<exists>h \<in> set (db_blockheaders db). H \<le> bh_height h \<and> tx_blockheader t = Some (bh_id h)
               then Tx_blockheader None t else t) (db_txs db)"
  by (auto simp: reorg_alt filter_empty_conv disconnect_blocks_txs intro!: map_idI[symmetric])

lemma reorg_next [simp]:
  "db_next_blockheader_id (reorg H db) = db_next_blockheader_id db"
  "db_next_merkleblock_id (reorg H db) = db_next_merkleblock_id db"
  by (auto simp: reorg_alt)

lemma update_tx_fields [simp]:
  "db_blockheaders (update_tx t db) = db_blockheaders db"
  "db_merkleblocks (update_tx t db) = db_merkleblocks db"
  "length (db_txs (update_tx t db)) = length (db_txs db)"
  by (simp_all add: update_tx_def)

lemma update_tx_nth:
  "i < length (db_txs db) \<Longrightarrow>
   db_txs (update_tx t db) ! i = (if tx_id (db_txs db ! i) = tx_id t then t else db_txs db ! i)"
  by (simp add: update_tx_def)

lemma updateConfirmations_loop_effect:
  "updateConfirmations_loop r db c = Inr (db', c') \<Longrightarrow>
     db_blockheaders db' = db_blockheaders db \<and> db_merkleblocks db' = db_merkleblocks db \<and>
     length (db_txs db') = length (db_txs db) \<and>
     (\<forall>i < length (db_txs db).
         tx_id (db_txs db' ! i) = tx_id (db_txs db ! i) \<and>
         (db_txs db' ! i = db_txs db ! i \<or>
          ((\<exists>h \<in> set (db_blockheaders db). tx_blockheader (db_txs db' ! i) = Some (bh_id h)) \<and>
           (\<exists>row \<in> set r. fst row = tx_id (db_txs db ! i) \<and> snd row \<noteq> 0))))"
proof (induction r arbitrary: db c)
  case Nil
  then show ?case by simp
next
  case (Cons row r)
  obtain tid hid where row: "row = (tid, hid)" by (cases row)
  show ?case
  proof (cases "hid = 0")
    case True
    with Cons.prems row have "updateConfirmations_loop r db c = Inr (db', c')" by simp
    from Cons.IH [OF this] show ?thesis by auto
  next
    case False
    from Cons.prems row False obtain tx txs blockheader bhs where
      tx: "filter (\<lambda>t. tx_id t = tid) (db_txs db) = tx # txs" and
      bh: "filter (\<lambda>h. bh_id h = hid) (db_blockheaders db) = blockheader # bhs" and
      rec: "updateConfirmations_loop r
              (update_tx (Tx_blockheader (Some (bh_id blockheader)) tx) db) (c + 1) = Inr (db', c')"
      by (auto split: list.splits)
    let ?t = "Tx_blockheader (Some (bh_id blockheader)) tx"
    let ?db1 = "update_tx ?t db"
    have tid: "tx_id ?t = tid" using filter_Cons_props [OF tx] by (simp add: Tx_blockheader_def)
    have bhin: "blockheader \<in> set (db_blockheaders db)" using filter_Cons_props [OF bh] by simp
    have lnk: "tx_blockheader ?t = Some (bh_id blockheader)" by (simp add: Tx_blockheader_def)
    note ih = Cons.IH [OF rec]
    have step: "\<And>i. i < length (db_txs db) \<Longrightarrow>
        tx_id (db_txs ?db1 ! i) = tx_id (db_txs db ! i) \<and>
        (db_txs ?db1 ! i = db_txs db ! i \<or>
         (db_txs ?db1 ! i = ?t \<and> tx_id (db_txs db ! i) = tid))"
      using tid by (auto simp: update_tx_nth)
    show ?thesis
    proof (intro conjI allI impI)
      show "db_blockheaders db' = db_blockheaders db" using ih by simp
      show "db_merkleblocks db' = db_merkleblocks db" using ih by simp
      show "length (db_txs db') = length (db_txs db)" using ih by simp
    next
      fix i assume i: "i < length (db_txs db)"
      then have i1: "i < length (db_txs ?db1)" by simp
      from ih i1 have a: "tx_id (db_txs db' ! i) = tx_id (db_txs ?db1 ! i)" by blast
      from ih i1 have b: "db_txs db' ! i = db_txs ?db1 ! i \<or>
          ((\<exists>h \<in> set (db_blockheaders ?db1). tx_blockheader (db_txs db' ! i) = Some (bh_id h)) \<and>
           (\<exists>row \<in> set r. fst row = tx_id (db_txs ?db1 ! i) \<and> snd row \<noteq> 0))" by blast
      show "tx_id (db_txs db' ! i) = tx_id (db_txs db ! i)"
        using a step [OF i] by simp
      show "db_txs db' ! i = db_txs db ! i \<or>
          ((\<exists>h \<in> set (db_blockheaders db). tx_blockheader (db_txs db' ! i) = Some (bh_id h)) \<and>
           (\<exists>row \<in> set (row # r). fst row = tx_id (db_txs db ! i) \<and> snd row \<noteq> 0))"
      proof (cases "db_txs db' ! i = db_txs ?db1 ! i")
        case True
        have "db_txs ?db1 ! i = db_txs db ! i \<or> (db_txs ?db1 ! i = ?t \<and> tx_id (db_txs db ! i) = tid)"
          using step [OF i] by blast
        then show ?thesis
        proof
          assume "db_txs ?db1 ! i = db_txs db ! i"
          then show ?thesis using True by simp
        next
          assume e: "db_txs ?db1 ! i = ?t \<and> tx_id (db_txs db ! i) = tid"
          have "\<exists>h \<in> set (db_blockheaders db). tx_blockheader (db_txs db' ! i) = Some (bh_id h)"
            using e True bhin lnk by auto
          moreover have "\<exists>row \<in> set (row # r). fst row = tx_id (db_txs db ! i) \<and> snd row \<noteq> 0"
            using e row \<open>hid \<noteq> 0\<close> by auto
          ultimately show ?thesis by blast
        qed
      next
        case False
        with b have "(\<exists>h \<in> set (db_blockheaders ?db1). tx_blockheader (db_txs db' ! i) = Some (bh_id h)) \<and>
           (\<exists>row \<in> set r. fst row = tx_id (db_txs ?db1 ! i) \<and> snd row \<noteq> 0)" by blast
        then show ?thesis using step [OF i] by auto
      qed
    qed
  qed
qed

lemma view_rows_of_tx:
  "row \<in> set (case filter P mbs of [] \<Rightarrow> [(i, 0)] | m # ms \<Rightarrow> map (\<lambda>m. (i, f m)) (m # ms)) \<Longrightarrow>
   snd row \<noteq> (0::nat) \<Longrightarrow> fst row = i \<and> (\<exists>m \<in> set mbs. P m)"
proof (cases "filter P mbs")
  case Nil
  assume "row \<in> set (case filter P mbs of [] \<Rightarrow> [(i, 0)] | m # ms \<Rightarrow> map (\<lambda>m. (i, f m)) (m # ms))"
    and "snd row \<noteq> 0"
  with Nil show ?thesis by simp
next
  case (Cons a list)
  assume r: "row \<in> set (case filter P mbs of [] \<Rightarrow> [(i, 0)] | m # ms \<Rightarrow> map (\<lambda>m. (i, f m)) (m # ms))"
  have "\<exists>m \<in> set mbs. P m" using filter_Cons_props [OF Cons] by blast
  moreover have "fst row = i" using r Cons by auto
  ultimately show ?thesis by simp
qed

lemma ConfirmedTxView_row:
  assumes "row \<in> set (ConfirmedTxView db q)" and "snd row \<noteq> 0"
  shows "\<exists>t \<in> set (db_txs db). q t \<and> fst row = tx_id t \<and>
        (\<exists>m \<in> set (db_merkleblocks db). tx_hash t \<in> set (mbr_hashes m))"
proof -
  from assms(1) obtain t where t: "t \<in> set (db_txs db)" "q t" and
    r: "row \<in> set (case filter (\<lambda>m. tx_hash t \<in> set (mbr_hashes m)) (db_merkleblocks db) of
                     [] \<Rightarrow> [(tx_id t, 0)]
                   | m # ms \<Rightarrow> map (\<lambda>m. (tx_id t, mbr_blockheader m)) (m # ms))"
    by (auto simp: ConfirmedTxView_def)
  from view_rows_of_tx [OF r assms(2)] t show ?thesis by blast
qed

lemma distinct_ids_nth:
  "distinct (map tx_id xs) \<Longrightarrow> t \<in> set xs \<Longrightarrow> i < length xs \<Longrightarrow> tx_id t = tx_id (xs ! i) \<Longrightarrow> t = xs ! i"
  by (metis distinct_map inj_onD nth_mem)

lemma insertMerkleBlock_true:
  assumes "insertMerkleBlock_unwrapped W mb db = Inr (db', True)"
  shows "\<exists>c. updateConfirmations_unwrapped None
            (connect_txs (db_next_blockheader_id db) (mb_hashes mb)
               (persist_merkleblock mb (reorg (bh_height (mb_blockheader mb)) db))) = Inr (db', c)"
  using assms
  by (auto simp: insertMerkleBlock_unwrapped_def Let_def split: if_splits sum.splits)

lemma db3_fields:
  fixes mb db
  defines "H \<equiv> bh_height (mb_blockheader mb)"
  defines "db3 \<equiv> connect_txs (db_next_blockheader_id db) (mb_hashes mb)
               (persist_merkleblock mb (reorg H db))"
  shows "db_blockheaders db3 = filter (\<lambda>h. \<not> H \<le> bh_height h) (db_blockheaders db) @
            [(mb_blockheader mb)\<lparr>bh_id := db_next_blockheader_id db\<rparr>]"
    and "db_merkleblocks db3 =
           filter (\<lambda>m. \<not> (\<exists>h \<in> set (db_blockheaders db). H \<le> bh_height h \<and> mbr_blockheader m = bh_id h))
             (db_merkleblocks db) @
           [\<lparr>mbr_id = db_next_merkleblock_id db, mbr_blockheader = db_next_blockheader_id db,
             mbr_hashes = mb_hashes mb\<rparr>]"
    and "length (db_txs db3) = length (db_txs db)"
    and "map tx_id (db_txs db3) = map tx_id (db_txs db)"
    and "i < length (db_txs db) \<Longrightarrow> tx_hash (db_txs db3 ! i) = tx_hash (db_txs db ! i)"
    and "i < length (db_txs db) \<Longrightarrow>
         \<exists>h \<in> set (db_blockheaders db). H \<le> bh_height h \<and> tx_blockheader (db_txs db ! i) = Some (bh_id h) \<Longrightarrow>
         tx_blockheader (db_txs db3 ! i) =
           (if tx_hash (db_txs db ! i) \<in> set (mb_hashes mb) then Some (db_next_blockheader_id db) else None)"
  by (auto simp: db3_def connect_txs_def persist_merkleblock_def reorg_headers
        reorg_merkleblocks reorg_txs Let_def Tx_block_def Tx_blockheader_def)

subsection \<open>The sync horizon\<close>

text \<open>
  Claim C10. When no transaction is persisted, \<open>getHorizonTimestamp_unwrapped\<close> returns
  the sentinel \<open>0xffffffff\<close>. The orphan test of \<open>insertMerkleBlock_unwrapped\<close> compares
  the 32-bit sum of the block's timestamp and \<open>TIME_HORIZON_WINDOW\<close> with that horizon: a
  block whose predecessor is unknown (and which is not stored yet) is refused exactly
  when the wrapped sum is strictly greater than the horizon. The wrapped sum is never
  greater than \<open>0xffffffff\<close>, so on a vault without transactions the orphan test refuses
  nothing: there the insertion returns false only for a block that is already stored.
\<close>

theorem horizon_sentinel_orphan_test:
  "(db_txs db = [] \<longrightarrow>
      getHorizonTimestamp_unwrapped db = 0xffffffff \<and>
      \<not> bh_timestamp (mb_blockheader mb) + W > getHorizonTimestamp_unwrapped db \<and>
      (\<exists>db'. insertMerkleBlock_unwrapped W mb db = Inr (db', False)) =
        (filter (\<lambda>h. bh_hash h = bh_hash (mb_blockheader mb)) (db_blockheaders db) \<noteq> []))
   \<and>
   (filter (\<lambda>h. bh_hash h = bh_prevhash (mb_blockheader mb)) (db_blockheaders db2) = [] \<and>
    filter (\<lambda>h. bh_hash h = bh_hash (mb_blockheader mb)) (db_blockheaders db2) = [] \<longrightarrow>
      (\<exists>db'. insertMerkleBlock_unwrapped W mb db2 = Inr (db', False)) =
        (bh_timestamp (mb_blockheader mb) + W > getHorizonTimestamp_unwrapped db2))"
proof (intro conjI impI)
  assume e: "db_txs db = []"
  show "getHorizonTimestamp_unwrapped db = 0xffffffff"
    using e by (rule horizon_empty)
  show "\<not> bh_timestamp (mb_blockheader mb) + W > getHorizonTimestamp_unwrapped db"
    using e by (simp add: horizon_empty word32_le_max)
  show "(\<exists>db'. insertMerkleBlock_unwrapped W mb db = Inr (db', False)) =
        (filter (\<lambda>h. bh_hash h = bh_hash (mb_blockheader mb)) (db_blockheaders db) \<noteq> [])"
    using e by (simp add: insertMerkleBlock_no_txs)
next
  assume "filter (\<lambda>h. bh_hash h = bh_prevhash (mb_blockheader mb)) (db_blockheaders db2) = [] \<and>
          filter (\<lambda>h. bh_hash h = bh_hash (mb_blockheader mb)) (db_blockheaders db2) = []"
  then show "(\<exists>db'. insertMerkleBlock_unwrapped W mb db2 = Inr (db', False)) =
        (bh_timestamp (mb_blockheader mb) + W > getHorizonTimestamp_unwrapped db2)"
    by (auto simp: insertMerkleBlock_unwrapped_def Let_def split: sum.splits)
qed

theorem horizon_sentinel_orphan_test_witness:
  "db_txs db_empty = [] \<and>
   getHorizonTimestamp_unwrapped db_empty = 0xffffffff \<and>
   (\<forall>db'. insertMerkleBlock_unwrapped 4294965796 orphan_block db_empty \<noteq> Inr (db', False)) \<and>
   filter (\<lambda>h. bh_hash h = bh_prevhash (mb_blockheader orphan_block)) (db_blockheaders db_one_tx) = [] \<and>
   filter (\<lambda>h. bh_hash h = bh_hash (mb_blockheader orphan_block)) (db_blockheaders db_one_tx) = [] \<and>
   getHorizonTimestamp_unwrapped db_one_tx = 1000 \<and>
   (\<exists>db'. insertMerkleBlock_unwrapped 21600 orphan_block db_one_tx = Inr (db', False)) \<and>
   (\<forall>db'. insertMerkleBlock_unwrapped 4294965796 orphan_block db_one_tx \<noteq> Inr (db', False))"
proof -
  have h: "getHorizonTimestamp_unwrapped db_one_tx = 1000"
    by (simp add: getHorizonTimestamp_unwrapped_def HorizonTimestampView_def db_one_tx_def
          db_empty_def tx_a_def header_a_def)
  have a: "db_txs db_empty = []" by (simp add: db_empty_def)
  have b: "filter (\<lambda>h. bh_hash h = bh_prevhash (mb_blockheader orphan_block)) (db_blockheaders db_one_tx) = []"
    by (simp add: db_one_tx_def db_empty_def orphan_block_def header_a_def)
  have c: "filter (\<lambda>h. bh_hash h = bh_hash (mb_blockheader orphan_block)) (db_blockheaders db_one_tx) = []"
    by (simp add: db_one_tx_def db_empty_def orphan_block_def header_a_def)
  have d: "filter (\<lambda>h. bh_hash h = bh_hash (mb_blockheader orphan_block)) (db_blockheaders db_empty) = []"
    by (simp add: db_empty_def)
  have t: "bh_timestamp (mb_blockheader orphan_block) = 2000" by (simp add: orphan_block_def)
  show ?thesis
    using horizon_sentinel_orphan_test [of db_empty orphan_block "4294965796" db_one_tx]
          horizon_sentinel_orphan_test [of db_empty orphan_block 21600 db_one_tx]
    by (simp add: a b c d h t)
qed

subsection \<open>Transaction lookup\<close>

lemma TxIn_tx_error: "TxIn_tx db i = Inl e \<Longrightarrow> e = ObjectNotPersistent"
  by (auto simp: TxIn_tx_def split: list.splits)

lemma deleteTx_errors:
  "deleteTx_unwrapped fuel tx db = Some (Inl e) \<Longrightarrow> e = ObjectNotPersistent"
  "delete_txouts fuel ids db = Some (Inl e) \<Longrightarrow> e = ObjectNotPersistent"
proof (induction fuel tx db and fuel ids db rule: deleteTx_unwrapped_delete_txouts.induct)
  case (1 tx db)
  then show ?case by simp
next
  case (2 fuel tx db)
  then show ?case by (auto split: option.splits sum.splits)
next
  case (3 fuel db)
  then show ?case by simp
next
  case (4 fuel i ids db)
  then show ?case
    by (auto split: option.splits sum.splits list.splits dest: TxIn_tx_error)
qed

text \<open>
  Claim C9. \<open>getTx\<close> and \<open>deleteTx\<close> resolve the hash against both the signed hash and the
  unsigned hash of the stored transactions. \<open>getTx_unwrapped\<close> throws \<open>TxNotFound\<close> if and
  only if no stored transaction has the hash as either of its two hashes, it throws
  nothing else, and what it returns is a stored transaction with that hash. \<open>deleteTx\<close>
  throws \<open>TxNotFound\<close> (for any fuel) if and only if no stored transaction has the hash as
  either of its two hashes; otherwise it deletes a stored transaction with that hash.
\<close>

theorem tx_lookup_both_hashes:
  "(getTx_unwrapped db h = Inl (TxNotFound h)) =
     (\<not> (\<exists>t \<in> set (db_txs db). tx_hash t = h \<or> tx_unsigned_hash t = h)) \<and>
   (\<forall>e. getTx_unwrapped db h = Inl e \<longrightarrow> e = TxNotFound h) \<and>
   (\<forall>t. getTx_unwrapped db h = Inr t \<longrightarrow>
        t \<in> set (db_txs db) \<and> (tx_hash t = h \<or> tx_unsigned_hash t = h)) \<and>
   (\<exists>v' h'. deleteTx fuel h v = Some (v', Inl (TxNotFound h'))) =
     (\<not> (\<exists>t \<in> set (db_txs (v_db v)). tx_hash t = h \<or> tx_unsigned_hash t = h)) \<and>
   ((\<exists>t \<in> set (db_txs (v_db v)). tx_hash t = h \<or> tx_unsigned_hash t = h) \<longrightarrow>
      (\<exists>t \<in> set (db_txs (v_db v)). (tx_hash t = h \<or> tx_unsigned_hash t = h) \<and>
          deleteTx fuel h v =
            (case deleteTx_unwrapped fuel t (v_db v) of
               None \<Rightarrow> None
             | Some (Inl e) \<Rightarrow> Some (v, Inl e)
             | Some (Inr db1) \<Rightarrow> Some (v\<lparr>v_db := db1\<rparr>, Inr ()))))"
proof -
  have A: "(getTx_unwrapped db h = Inl (TxNotFound h)) =
     (\<not> (\<exists>t \<in> set (db_txs db). tx_hash t = h \<or> tx_unsigned_hash t = h))"
    by (rule getTx_found_iff)
  have B: "\<forall>e. getTx_unwrapped db h = Inl e \<longrightarrow> e = TxNotFound h"
    by (auto simp: getTx_unwrapped_def split: list.splits)
  have C: "\<forall>t. getTx_unwrapped db h = Inr t \<longrightarrow>
        t \<in> set (db_txs db) \<and> (tx_hash t = h \<or> tx_unsigned_hash t = h)"
    by (auto simp: getTx_unwrapped_def split: list.splits dest: filter_Cons_props)
  have D: "(\<exists>v' h'. deleteTx fuel h v = Some (v', Inl (TxNotFound h'))) =
     (\<not> (\<exists>t \<in> set (db_txs (v_db v)). tx_hash t = h \<or> tx_unsigned_hash t = h))"
    by (auto simp: deleteTx_def filter_empty_conv split: list.splits option.splits sum.splits
          dest: filter_Cons_props deleteTx_errors(1))
  have E: "\<exists>t \<in> set (db_txs (v_db v)). (tx_hash t = h \<or> tx_unsigned_hash t = h) \<and>
          deleteTx fuel h v =
            (case deleteTx_unwrapped fuel t (v_db v) of
               None \<Rightarrow> None
             | Some (Inl e) \<Rightarrow> Some (v, Inl e)
             | Some (Inr db1) \<Rightarrow> Some (v\<lparr>v_db := db1\<rparr>, Inr ()))"
    if "\<exists>t \<in> set (db_txs (v_db v)). tx_hash t = h \<or> tx_unsigned_hash t = h"
  proof -
    from that have "filter (\<lambda>t. tx_hash t = h \<or> tx_unsigned_hash t = h) (db_txs (v_db v)) \<noteq> []"
      by (auto simp: filter_empty_conv)
    then obtain t ts where f: "filter (\<lambda>t. tx_hash t = h \<or> tx_unsigned_hash t = h) (db_txs (v_db v)) = t # ts"
      by (cases "filter (\<lambda>t. tx_hash t = h \<or> tx_unsigned_hash t = h) (db_txs (v_db v))") auto
    from filter_Cons_props [OF f] f show ?thesis
      by (intro bexI [of _ t]) (auto simp: deleteTx_def)
  qed
  from A B C D E show ?thesis by blast
qed

theorem tx_lookup_both_hashes_witness:
  "tx_a \<in> set (db_txs db_one_tx) \<and> tx_hash tx_a = [0x1] \<and> tx_unsigned_hash tx_a = [0x2] \<and>
   getTx_unwrapped db_one_tx [0x1] = Inr tx_a \<and>
   getTx_unwrapped db_one_tx [0x2] = Inr tx_a \<and>
   getTx_unwrapped db_one_tx [0x3] = Inl (TxNotFound [0x3]) \<and>
   deleteTx 1 [0x2] (vault_of db_one_tx) = Some (vault_of (db_one_tx\<lparr>db_txs := []\<rparr>), Inr ()) \<and>
   deleteTx 1 [0x3] (vault_of db_one_tx) = Some (vault_of db_one_tx, Inl (TxNotFound [0x3]))"
  using tx_lookup_both_hashes [of db_one_tx "[0x1]" 1 "vault_of db_one_tx"]
        tx_lookup_both_hashes [of db_one_tx "[0x3]" 1 "vault_of db_one_tx"]
  by (simp add: getTx_unwrapped_def db_one_tx_def db_empty_def tx_a_def deleteTx_def vault_of_def
       erase_tx_def)

subsection \<open>Reorganisation\<close>

lemma ConfirmedTxView_row_header:
  assumes "row \<in> set (ConfirmedTxView db q)" and "snd row \<noteq> 0"
  shows "\<exists>t \<in> set (db_txs db). q t \<and> fst row = tx_id t \<and>
        (\<exists>m \<in> set (db_merkleblocks db). tx_hash t \<in> set (mbr_hashes m) \<and>
            snd row = mbr_blockheader m)"
proof -
  from assms(1) obtain t where t: "t \<in> set (db_txs db)" "q t" and
    r: "row \<in> set (case filter (\<lambda>m. tx_hash t \<in> set (mbr_hashes m)) (db_merkleblocks db) of
                     [] \<Rightarrow> [(tx_id t, 0)]
                   | m # ms \<Rightarrow> map (\<lambda>m. (tx_id t, mbr_blockheader m)) (m # ms))"
    by (auto simp: ConfirmedTxView_def)
  show ?thesis
  proof (cases "filter (\<lambda>m. tx_hash t \<in> set (mbr_hashes m)) (db_merkleblocks db)")
    case Nil
    with r assms(2) show ?thesis by simp
  next
    case (Cons m ms)
    with r obtain m' where
      m': "m' \<in> set (filter (\<lambda>m. tx_hash t \<in> set (mbr_hashes m)) (db_merkleblocks db))"
        "row = (tx_id t, mbr_blockheader m')" by auto
    with t show ?thesis by (intro bexI [of _ t]) auto
  qed
qed

lemma ConfirmedTxView_member:
  assumes t: "t \<in> set (db_txs db)" "q t"
    and m: "m \<in> set (db_merkleblocks db)" "tx_hash t \<in> set (mbr_hashes m)"
  shows "(tx_id t, mbr_blockheader m) \<in> set (ConfirmedTxView db q)"
proof -
  from m have mem: "m \<in> set (filter (\<lambda>m. tx_hash t \<in> set (mbr_hashes m)) (db_merkleblocks db))"
    by simp
  then obtain a as where
    f: "filter (\<lambda>m. tx_hash t \<in> set (mbr_hashes m)) (db_merkleblocks db) = a # as"
    by (cases "filter (\<lambda>m. tx_hash t \<in> set (mbr_hashes m)) (db_merkleblocks db)") auto
  have "(tx_id t, mbr_blockheader m) \<in>
      set (case filter (\<lambda>m. tx_hash t \<in> set (mbr_hashes m)) (db_merkleblocks db) of
                     [] \<Rightarrow> [(tx_id t, 0)]
                   | m # ms \<Rightarrow> map (\<lambda>m. (tx_id t, mbr_blockheader m)) (m # ms))"
    using mem unfolding f by auto
  with t show ?thesis unfolding ConfirmedTxView_def by auto
qed

lemma updateConfirmations_loop_links:
  assumes "updateConfirmations_loop r db c = Inr (db', c')"
    and "distinct (map tx_id (db_txs db))" and "i < length (db_txs db)"
    and "\<exists>row \<in> set r. fst row = tx_id (db_txs db ! i) \<and> snd row \<noteq> 0"
  shows "\<exists>row \<in> set r. fst row = tx_id (db_txs db ! i) \<and> snd row \<noteq> 0 \<and>
           tx_blockheader (db_txs db' ! i) = Some (snd row)"
  using assms
proof (induction r arbitrary: db c)
  case Nil
  then show ?case by simp
next
  case (Cons row r)
  obtain tid hid where row: "row = (tid, hid)" by (cases row)
  show ?case
  proof (cases "hid = 0")
    case True
    with Cons.prems(1) row have l: "updateConfirmations_loop r db c = Inr (db', c')" by simp
    from Cons.prems(4) row True
    have "\<exists>row \<in> set r. fst row = tx_id (db_txs db ! i) \<and> snd row \<noteq> 0" by auto
    from Cons.IH [OF l Cons.prems(2) Cons.prems(3) this] show ?thesis by auto
  next
    case False
    from Cons.prems(1) row False obtain tx txs blockheader bhs where
      tx: "filter (\<lambda>t. tx_id t = tid) (db_txs db) = tx # txs" and
      bh: "filter (\<lambda>h. bh_id h = hid) (db_blockheaders db) = blockheader # bhs" and
      rec: "updateConfirmations_loop r
              (update_tx (Tx_blockheader (Some (bh_id blockheader)) tx) db) (c + 1) = Inr (db', c')"
      by (auto split: list.splits)
    let ?t = "Tx_blockheader (Some (bh_id blockheader)) tx"
    let ?db1 = "update_tx ?t db"
    have tid: "tx_id ?t = tid" using filter_Cons_props [OF tx] by (simp add: Tx_blockheader_def)
    have hid: "bh_id blockheader = hid" using filter_Cons_props [OF bh] by simp
    have n1: "db_txs ?db1 ! i = (if tx_id (db_txs db ! i) = tid then ?t else db_txs db ! i)"
      using update_tx_nth [OF Cons.prems(3), of ?t] tid by simp
    then have id1: "tx_id (db_txs ?db1 ! i) = tx_id (db_txs db ! i)" using tid by auto
    have ids: "map tx_id (db_txs ?db1) = map tx_id (db_txs db)"
      using tid by (auto simp: update_tx_def)
    with Cons.prems(2) have d1: "distinct (map tx_id (db_txs ?db1))" by simp
    have i1: "i < length (db_txs ?db1)" using Cons.prems(3) by simp
    show ?thesis
    proof (cases "\<exists>row \<in> set r. fst row = tx_id (db_txs db ! i) \<and> snd row \<noteq> 0")
      case True
      then have "\<exists>row \<in> set r. fst row = tx_id (db_txs ?db1 ! i) \<and> snd row \<noteq> 0"
        using id1 by simp
      from Cons.IH [OF rec d1 i1 this] id1 show ?thesis by auto
    next
      case False
      with Cons.prems(4) row have h: "tid = tx_id (db_txs db ! i)" by auto
      from updateConfirmations_loop_effect [OF rec] i1
      have "db_txs db' ! i = db_txs ?db1 ! i \<or>
          (\<exists>row \<in> set r. fst row = tx_id (db_txs ?db1 ! i) \<and> snd row \<noteq> 0)" by blast
      with False have "db_txs db' ! i = db_txs ?db1 ! i" unfolding id1 by blast
      with n1 h have "tx_blockheader (db_txs db' ! i) = Some hid"
        using hid by (simp add: Tx_blockheader_def)
      with row h \<open>hid \<noteq> 0\<close> show ?thesis by auto
    qed
  qed
qed

lemma insertMerkleBlock_reorg_example:
  "insertMerkleBlock_unwrapped 21600 mb_reorg db_reorg = Inr (db_reorg_after, True)"
  by (simp add: insertMerkleBlock_unwrapped_def Let_def mb_reorg_def db_reorg_def db_reorg_after_def
        db_empty_def header_6_def header_7_def confirmed_tx_def reorg_def
        persist_merkleblock_def connect_txs_def updateConfirmations_unwrapped_def
        ConfirmedTxView_def update_tx_def Tx_blockheader_def Tx_block_def
        getHorizonTimestamp_unwrapped_def HorizonTimestampView_def)

text \<open>
  Claim C6, as stated, fails. In \<open>db_reorg\<close> the first transaction points at the header
  of height 7 (id 2), which the reorganisation at height 7 erases. The new block does
  not list it, but the stored merkle block of height 6 does, so
  \<open>updateConfirmations_unwrapped\<close> links it to the header of height 6 (id 1): after the
  operation its link is neither null nor the new header (id 3).
\<close>

theorem reorg_relinks_to_surviving_block:
  "insertMerkleBlock_unwrapped 21600 mb_reorg db_reorg = Inr (db_reorg_after, True) \<and>
   map bh_id (filter (\<lambda>h. bh_height h \<ge> bh_height (mb_blockheader mb_reorg)) (db_blockheaders db_reorg)) = [2] \<and>
   tx_blockheader (db_txs db_reorg ! 0) = Some 2 \<and>
   tx_hash (db_txs db_reorg ! 0) \<notin> set (mb_hashes mb_reorg) \<and>
   tx_blockheader (db_txs db_reorg_after ! 0) = Some 1 \<and>
   db_next_blockheader_id db_reorg = 3 \<and>
   map bh_id (db_blockheaders db_reorg_after) = [1, 3]"
  by (simp add: insertMerkleBlock_reorg_example)
     (simp add: mb_reorg_def db_reorg_def db_reorg_after_def db_empty_def header_6_def
        header_7_def confirmed_tx_def)

text \<open>
  Claim C6, amended. When \<open>insertMerkleBlock_unwrapped\<close> returns true, the stored headers
  are the old headers below the height of the new block followed by the new header,
  and the stored merkle blocks are the old ones that point at no erased header followed
  by the new one. A transaction that pointed at an erased header has a null link or
  points at a header that is stored after the operation. With unique transaction ids,
  it points at the new header when the new block lists its hash, and its link is null
  when no merkle block stored after the operation lists its hash; when the new block
  does not list its hash and a surviving merkle block with a header id other than 0
  does, it points at the header of such a merkle block.
\<close>

theorem reorg_disconnects:
  assumes ins: "insertMerkleBlock_unwrapped W mb db = Inr (db', True)"
  shows "db_blockheaders db' =
           filter (\<lambda>h. \<not> bh_height (mb_blockheader mb) \<le> bh_height h) (db_blockheaders db) @
             [(mb_blockheader mb)\<lparr>bh_id := db_next_blockheader_id db\<rparr>] \<and>
         db_merkleblocks db' =
           filter (\<lambda>m. \<not> (\<exists>h \<in> set (db_blockheaders db).
                             bh_height (mb_blockheader mb) \<le> bh_height h \<and> mbr_blockheader m = bh_id h))
             (db_merkleblocks db) @
           [\<lparr>mbr_id = db_next_merkleblock_id db, mbr_blockheader = db_next_blockheader_id db,
             mbr_hashes = mb_hashes mb\<rparr>] \<and>
         length (db_txs db') = length (db_txs db) \<and>
         (\<forall>i < length (db_txs db).
            (\<exists>h \<in> set (db_blockheaders db). bh_height (mb_blockheader mb) \<le> bh_height h \<and>
                tx_blockheader (db_txs db ! i) = Some (bh_id h)) \<longrightarrow>
            (tx_blockheader (db_txs db' ! i) = None \<or>
             (\<exists>h' \<in> set (db_blockheaders db'). tx_blockheader (db_txs db' ! i) = Some (bh_id h'))) \<and>
            (distinct (map tx_id (db_txs db)) \<longrightarrow>
               (tx_hash (db_txs db ! i) \<in> set (mb_hashes mb) \<longrightarrow>
                  tx_blockheader (db_txs db' ! i) = Some (db_next_blockheader_id db)) \<and>
               ((\<forall>m \<in> set (db_merkleblocks db'). tx_hash (db_txs db ! i) \<notin> set (mbr_hashes m)) \<longrightarrow>
                  tx_blockheader (db_txs db' ! i) = None) \<and>
               (tx_hash (db_txs db ! i) \<notin> set (mb_hashes mb) \<and>
                (\<exists>m \<in> set (db_merkleblocks db'). tx_hash (db_txs db ! i) \<in> set (mbr_hashes m) \<and>
                     mbr_blockheader m \<noteq> 0) \<longrightarrow>
                  (\<exists>m \<in> set (db_merkleblocks db). m \<in> set (db_merkleblocks db') \<and>
                     tx_hash (db_txs db ! i) \<in> set (mbr_hashes m) \<and> mbr_blockheader m \<noteq> 0 \<and>
                     tx_blockheader (db_txs db' ! i) = Some (mbr_blockheader m)))))"
proof -
  define H where "H = bh_height (mb_blockheader mb)"
  define nid where "nid = db_next_blockheader_id db"
  define db3 where "db3 = connect_txs nid (mb_hashes mb) (persist_merkleblock mb (reorg H db))"
  define q where "q = (\<lambda>t::Tx. tx_blockheader t = None \<and> (case None :: Tx option of None \<Rightarrow> True | Some tx' \<Rightarrow> tx_hash t = tx_hash tx'))"
  from insertMerkleBlock_true [OF ins] obtain c where
    "updateConfirmations_unwrapped None db3 = Inr (db', c)"
    by (auto simp: db3_def nid_def H_def)
  then have loop: "updateConfirmations_loop (ConfirmedTxView db3 q) db3 0 = Inr (db', c)"
    by (simp add: updateConfirmations_unwrapped_def q_def)
  note eff = updateConfirmations_loop_effect [OF loop]
  note f = db3_fields [where mb = mb and db = db, folded H_def nid_def, folded db3_def]
  have hd: "db_blockheaders db' = db_blockheaders db3" and md: "db_merkleblocks db' = db_merkleblocks db3"
    and len: "length (db_txs db') = length (db_txs db)"
    using eff f(3) by auto
  have main: "\<And>i. i < length (db_txs db) \<Longrightarrow>
            (\<exists>h \<in> set (db_blockheaders db). H \<le> bh_height h \<and>
                tx_blockheader (db_txs db ! i) = Some (bh_id h)) \<Longrightarrow>
            (tx_blockheader (db_txs db' ! i) = None \<or>
             (\<exists>h' \<in> set (db_blockheaders db'). tx_blockheader (db_txs db' ! i) = Some (bh_id h'))) \<and>
            (distinct (map tx_id (db_txs db)) \<longrightarrow>
               (tx_hash (db_txs db ! i) \<in> set (mb_hashes mb) \<longrightarrow>
                  tx_blockheader (db_txs db' ! i) = Some nid) \<and>
               ((\<forall>m \<in> set (db_merkleblocks db'). tx_hash (db_txs db ! i) \<notin> set (mbr_hashes m)) \<longrightarrow>
                  tx_blockheader (db_txs db' ! i) = None) \<and>
               (tx_hash (db_txs db ! i) \<notin> set (mb_hashes mb) \<and>
                (\<exists>m \<in> set (db_merkleblocks db'). tx_hash (db_txs db ! i) \<in> set (mbr_hashes m) \<and>
                     mbr_blockheader m \<noteq> 0) \<longrightarrow>
                  (\<exists>m \<in> set (db_merkleblocks db). m \<in> set (db_merkleblocks db') \<and>
                     tx_hash (db_txs db ! i) \<in> set (mbr_hashes m) \<and> mbr_blockheader m \<noteq> 0 \<and>
                     tx_blockheader (db_txs db' ! i) = Some (mbr_blockheader m))))"
  proof -
    fix i assume i: "i < length (db_txs db)"
      and dis: "\<exists>h \<in> set (db_blockheaders db). H \<le> bh_height h \<and>
                tx_blockheader (db_txs db ! i) = Some (bh_id h)"
    have i3: "i < length (db_txs db3)" using i f(3) by simp
    have l3: "tx_blockheader (db_txs db3 ! i) =
           (if tx_hash (db_txs db ! i) \<in> set (mb_hashes mb) then Some nid else None)"
      using f(6) [OF i dis] .
    have h3: "tx_hash (db_txs db3 ! i) = tx_hash (db_txs db ! i)" using f(5) [OF i] .
    from eff i3 have alt: "db_txs db' ! i = db_txs db3 ! i \<or>
          ((\<exists>h \<in> set (db_blockheaders db3). tx_blockheader (db_txs db' ! i) = Some (bh_id h)) \<and>
           (\<exists>row \<in> set (ConfirmedTxView db3 q). fst row = tx_id (db_txs db3 ! i) \<and> snd row \<noteq> 0))"
      by blast
    have newin: "\<exists>h' \<in> set (db_blockheaders db'). Some nid = Some (bh_id h')"
      unfolding hd f(1) by simp
    have part1: "tx_blockheader (db_txs db' ! i) = None \<or>
             (\<exists>h' \<in> set (db_blockheaders db'). tx_blockheader (db_txs db' ! i) = Some (bh_id h'))"
      using alt
    proof
      assume "db_txs db' ! i = db_txs db3 ! i"
      then show ?thesis using l3 newin by (auto split: if_splits)
    next
      assume "(\<exists>h \<in> set (db_blockheaders db3). tx_blockheader (db_txs db' ! i) = Some (bh_id h)) \<and>
           (\<exists>row \<in> set (ConfirmedTxView db3 q). fst row = tx_id (db_txs db3 ! i) \<and> snd row \<noteq> 0)"
      then show ?thesis using hd by auto
    qed
    have part2: "(tx_hash (db_txs db ! i) \<in> set (mb_hashes mb) \<longrightarrow>
                  tx_blockheader (db_txs db' ! i) = Some nid) \<and>
               ((\<forall>m \<in> set (db_merkleblocks db'). tx_hash (db_txs db ! i) \<notin> set (mbr_hashes m)) \<longrightarrow>
                  tx_blockheader (db_txs db' ! i) = None) \<and>
               (tx_hash (db_txs db ! i) \<notin> set (mb_hashes mb) \<and>
                (\<exists>m \<in> set (db_merkleblocks db'). tx_hash (db_txs db ! i) \<in> set (mbr_hashes m) \<and>
                     mbr_blockheader m \<noteq> 0) \<longrightarrow>
                  (\<exists>m \<in> set (db_merkleblocks db). m \<in> set (db_merkleblocks db') \<and>
                     tx_hash (db_txs db ! i) \<in> set (mbr_hashes m) \<and> mbr_blockheader m \<noteq> 0 \<and>
                     tx_blockheader (db_txs db' ! i) = Some (mbr_blockheader m)))"
      if d: "distinct (map tx_id (db_txs db))"
    proof -
      have d3: "distinct (map tx_id (db_txs db3))" using d f(4) by simp
      have norow: "\<not> (\<exists>row \<in> set (ConfirmedTxView db3 q). fst row = tx_id (db_txs db3 ! i) \<and> snd row \<noteq> 0)"
        if x: "tx_blockheader (db_txs db3 ! i) \<noteq> None \<or>
               (\<forall>m \<in> set (db_merkleblocks db3). tx_hash (db_txs db3 ! i) \<notin> set (mbr_hashes m))"
      proof
        assume "\<exists>row \<in> set (ConfirmedTxView db3 q). fst row = tx_id (db_txs db3 ! i) \<and> snd row \<noteq> 0"
        then obtain row where r: "row \<in> set (ConfirmedTxView db3 q)" "fst row = tx_id (db_txs db3 ! i)"
          "snd row \<noteq> 0" by blast
        from ConfirmedTxView_row [OF r(1) r(3)] obtain t where
          t: "t \<in> set (db_txs db3)" "q t" "fst row = tx_id t"
             "\<exists>m \<in> set (db_merkleblocks db3). tx_hash t \<in> set (mbr_hashes m)" by blast
        have "t = db_txs db3 ! i"
          using distinct_ids_nth [OF d3 t(1) i3] t(3) r(2) by simp
        with t(2) t(4) x show False by (auto simp: q_def)
      qed
      have one: "tx_blockheader (db_txs db' ! i) = Some nid"
        if "tx_hash (db_txs db ! i) \<in> set (mb_hashes mb)"
      proof -
        have "tx_blockheader (db_txs db3 ! i) \<noteq> None" using l3 that by simp
        with norow alt have "db_txs db' ! i = db_txs db3 ! i" by blast
        then show ?thesis using l3 that by simp
      qed
      have two: "tx_blockheader (db_txs db' ! i) = None"
        if n: "\<forall>m \<in> set (db_merkleblocks db'). tx_hash (db_txs db ! i) \<notin> set (mbr_hashes m)"
      proof -
        have nin: "tx_hash (db_txs db ! i) \<notin> set (mb_hashes mb)"
          using n unfolding md f(2) by simp
        have "\<forall>m \<in> set (db_merkleblocks db3). tx_hash (db_txs db3 ! i) \<notin> set (mbr_hashes m)"
          using n md h3 by simp
        with norow alt have "db_txs db' ! i = db_txs db3 ! i" by blast
        then show ?thesis using l3 nin by simp
      qed
      have three: "\<exists>m \<in> set (db_merkleblocks db). m \<in> set (db_merkleblocks db') \<and>
                     tx_hash (db_txs db ! i) \<in> set (mbr_hashes m) \<and> mbr_blockheader m \<noteq> 0 \<and>
                     tx_blockheader (db_txs db' ! i) = Some (mbr_blockheader m)"
        if nin: "tx_hash (db_txs db ! i) \<notin> set (mb_hashes mb)"
          and ex: "\<exists>m \<in> set (db_merkleblocks db'). tx_hash (db_txs db ! i) \<in> set (mbr_hashes m) \<and>
                     mbr_blockheader m \<noteq> 0"
      proof -
        from ex obtain m0 where m0: "m0 \<in> set (db_merkleblocks db3)"
          "tx_hash (db_txs db3 ! i) \<in> set (mbr_hashes m0)" "mbr_blockheader m0 \<noteq> 0"
          using md h3 by auto
        have qi: "q (db_txs db3 ! i)" using l3 nin by (simp add: q_def)
        have mem: "db_txs db3 ! i \<in> set (db_txs db3)" using i3 by simp
        from ConfirmedTxView_member [of "db_txs db3 ! i" db3 q m0, OF mem qi m0(1) m0(2)] m0(3)
        have "\<exists>row \<in> set (ConfirmedTxView db3 q). fst row = tx_id (db_txs db3 ! i) \<and> snd row \<noteq> 0"
          by force
        from updateConfirmations_loop_links [OF loop d3 i3 this] obtain row where
          r: "row \<in> set (ConfirmedTxView db3 q)" "fst row = tx_id (db_txs db3 ! i)" "snd row \<noteq> 0"
            "tx_blockheader (db_txs db' ! i) = Some (snd row)" by blast
        from ConfirmedTxView_row_header [OF r(1) r(3)] obtain t m where
          t: "t \<in> set (db_txs db3)" "fst row = tx_id t" and
          m: "m \<in> set (db_merkleblocks db3)" "tx_hash t \<in> set (mbr_hashes m)"
             "snd row = mbr_blockheader m" by blast
        have "t = db_txs db3 ! i"
          using distinct_ids_nth [OF d3 t(1) i3] t(2) r(2) by simp
        with m(2) h3 have lst: "tx_hash (db_txs db ! i) \<in> set (mbr_hashes m)" by simp
        with nin m(1) have "m \<in> set (db_merkleblocks db)" unfolding f(2) by auto
        moreover have "m \<in> set (db_merkleblocks db')" using m(1) md by simp
        ultimately show ?thesis using lst r(3) r(4) m(3) by auto
      qed
      from one two three show ?thesis by blast
    qed
    from part1 part2 show "(tx_blockheader (db_txs db' ! i) = None \<or>
             (\<exists>h' \<in> set (db_blockheaders db'). tx_blockheader (db_txs db' ! i) = Some (bh_id h'))) \<and>
            (distinct (map tx_id (db_txs db)) \<longrightarrow>
               (tx_hash (db_txs db ! i) \<in> set (mb_hashes mb) \<longrightarrow>
                  tx_blockheader (db_txs db' ! i) = Some nid) \<and>
               ((\<forall>m \<in> set (db_merkleblocks db'). tx_hash (db_txs db ! i) \<notin> set (mbr_hashes m)) \<longrightarrow>
                  tx_blockheader (db_txs db' ! i) = None) \<and>
               (tx_hash (db_txs db ! i) \<notin> set (mb_hashes mb) \<and>
                (\<exists>m \<in> set (db_merkleblocks db'). tx_hash (db_txs db ! i) \<in> set (mbr_hashes m) \<and>
                     mbr_blockheader m \<noteq> 0) \<longrightarrow>
                  (\<exists>m \<in> set (db_merkleblocks db). m \<in> set (db_merkleblocks db') \<and>
                     tx_hash (db_txs db ! i) \<in> set (mbr_hashes m) \<and> mbr_blockheader m \<noteq> 0 \<and>
                     tx_blockheader (db_txs db' ! i) = Some (mbr_blockheader m))))" by blast
  qed
  have main': "\<forall>i < length (db_txs db).
            (\<exists>h \<in> set (db_blockheaders db). H \<le> bh_height h \<and>
                tx_blockheader (db_txs db ! i) = Some (bh_id h)) \<longrightarrow>
            (tx_blockheader (db_txs db' ! i) = None \<or>
             (\<exists>h' \<in> set (db_blockheaders db'). tx_blockheader (db_txs db' ! i) = Some (bh_id h'))) \<and>
            (distinct (map tx_id (db_txs db)) \<longrightarrow>
               (tx_hash (db_txs db ! i) \<in> set (mb_hashes mb) \<longrightarrow>
                  tx_blockheader (db_txs db' ! i) = Some nid) \<and>
               ((\<forall>m \<in> set (db_merkleblocks db'). tx_hash (db_txs db ! i) \<notin> set (mbr_hashes m)) \<longrightarrow>
                  tx_blockheader (db_txs db' ! i) = None) \<and>
               (tx_hash (db_txs db ! i) \<notin> set (mb_hashes mb) \<and>
                (\<exists>m \<in> set (db_merkleblocks db'). tx_hash (db_txs db ! i) \<in> set (mbr_hashes m) \<and>
                     mbr_blockheader m \<noteq> 0) \<longrightarrow>
                  (\<exists>m \<in> set (db_merkleblocks db). m \<in> set (db_merkleblocks db') \<and>
                     tx_hash (db_txs db ! i) \<in> set (mbr_hashes m) \<and> mbr_blockheader m \<noteq> 0 \<and>
                     tx_blockheader (db_txs db' ! i) = Some (mbr_blockheader m))))"
    using main by blast
  from hd [unfolded f(1)] md [unfolded f(2)] len main'
  show ?thesis unfolding H_def [symmetric] nid_def [symmetric] by (intro conjI)
qed


theorem reorg_disconnects_witness:
  "insertMerkleBlock_unwrapped 21600 mb_reorg db_reorg = Inr (db_reorg_after, True) \<and>
   distinct (map tx_id (db_txs db_reorg)) \<and>
   map bh_height (db_blockheaders db_reorg) = [6, 7] \<and>
   map tx_blockheader (db_txs db_reorg) = [Some 2, Some 2, Some 2] \<and>
   map bh_height (db_blockheaders db_reorg_after) = [6, 7] \<and>
   map bh_id (db_blockheaders db_reorg_after) = [1, 3] \<and>
   map mbr_blockheader (db_merkleblocks db_reorg_after) = [1, 3] \<and>
   map tx_blockheader (db_txs db_reorg_after) = [Some 1, None, Some 3] \<and>
   tx_hash (db_txs db_reorg ! 0) \<notin> set (mb_hashes mb_reorg) \<and>
   tx_hash (db_txs db_reorg ! 0) \<in> set (mbr_hashes (hd (db_merkleblocks db_reorg_after))) \<and>
   mbr_blockheader (hd (db_merkleblocks db_reorg_after)) = 1"
proof -
  have a: "distinct (map tx_id (db_txs db_reorg)) \<and>
   map bh_height (db_blockheaders db_reorg) = [6, 7] \<and>
   map tx_blockheader (db_txs db_reorg) = [Some 2, Some 2, Some 2] \<and>
   map bh_height (db_blockheaders db_reorg_after) = [6, 7] \<and>
   map bh_id (db_blockheaders db_reorg_after) = [1, 3] \<and>
   map mbr_blockheader (db_merkleblocks db_reorg_after) = [1, 3] \<and>
   map tx_blockheader (db_txs db_reorg_after) = [Some 1, None, Some 3] \<and>
   tx_hash (db_txs db_reorg ! 0) \<notin> set (mb_hashes mb_reorg) \<and>
   tx_hash (db_txs db_reorg ! 0) \<in> set (mbr_hashes (hd (db_merkleblocks db_reorg_after))) \<and>
   mbr_blockheader (hd (db_merkleblocks db_reorg_after)) = 1"
    by (simp add: mb_reorg_def db_reorg_def db_reorg_after_def db_empty_def header_6_def
        header_7_def confirmed_tx_def)
  show ?thesis
    using reorg_disconnects [OF insertMerkleBlock_reorg_example] insertMerkleBlock_reorg_example a
    by blast
qed

subsection \<open>Commit of the public operations\<close>

text \<open>
  Claim C1 fails on the code for \<open>insertMerkleBlock\<close>: on a store without transactions
  the unwrapped operation accepts the block, stores its header and returns true, and
  the public operation returns true and leaves the store as it was, because it ends
  without a commit.
\<close>

theorem insertMerkleBlock_not_committed:
  "(\<exists>db1. insertMerkleBlock_unwrapped 21600 orphan_block db_empty = Inr (db1, True) \<and>
          map bh_hash (db_blockheaders db1) = [[0xc]] \<and>
          map mbr_blockheader (db_merkleblocks db1) = [1]) \<and>
   insertMerkleBlock 21600 orphan_block (vault_of db_empty) = (vault_of db_empty, Inr True) \<and>
   db_blockheaders (v_db (fst (insertMerkleBlock 21600 orphan_block (vault_of db_empty)))) = []"
  by (simp add: insertMerkleBlock_def insertMerkleBlock_no_txs rollback_def vault_of_def
        db_empty_def orphan_block_def reorg_def connect_txs_def persist_merkleblock_def)

subsection \<open>Unlocking a keychain\<close>

text \<open>
  Claim C8 fails on the code for the public unlock operations: with a key that the
  keychain rejects, \<open>unlockKeychainChainCode\<close> and \<open>unlockKeychainPrivateKey\<close> return
  normally, without an \<open>UnlockFailed\<close> error; the key is not cached. A key that the
  keychain accepts is cached. Only \<open>tryUnlockKeychainChainCode_unwrapped\<close>, which tries
  the cached key, throws \<open>KeychainChainCodeUnlockFailed\<close>.
\<close>

theorem unlock_wrong_key_no_error:
  "\<not> Keychain_unlockChainCode env0 \<lparr>kc_id = 1, kc_name = ''k'', kc_hash = [1]\<rparr> [2] \<and>
   unlockKeychainChainCode env0 ''k'' [2] (vault_of db_acct) = (vault_of db_acct, Inr ()) \<and>
   unlockKeychainPrivateKey env0 ''k'' [2] (vault_of db_acct) = (vault_of db_acct, Inr ()) \<and>
   unlockKeychainChainCode env0 ''k'' [1] (vault_of db_acct) =
     ((vault_of db_acct)\<lparr>mapChainCodeUnlock := [''k'' \<mapsto> [1]]\<rparr>, Inr ()) \<and>
   tryUnlockKeychainChainCode_unwrapped env0 \<lparr>kc_id = 1, kc_name = ''k'', kc_hash = [1]\<rparr>
     ((vault_of db_acct)\<lparr>mapChainCodeUnlock := [''k'' \<mapsto> [2]]\<rparr>) =
     Inl (KeychainChainCodeUnlockFailed ''k'')"
  by (simp add: unlockKeychainChainCode_def unlockKeychainPrivateKey_def
        tryUnlockKeychainChainCode_unwrapped_def getKeychain_unwrapped_def
        env0_def db_acct_def db_empty_def vault_of_def)

subsection \<open>Change script of a created transaction\<close>

text \<open>
  Claim C5 fails on the code: \<open>createTx_unwrapped\<close> issues the change script with
  \<open>issueAccountBinSigningScript_unwrapped\<close>, the same function that refuses the change
  bin. The account owns one unspent output of value 10. Paying 5 with fee 1 leaves a
  surplus, and the creation throws \<open>AccountCannotIssueChangeScript\<close>; paying 9 with fee
  1 leaves none, and the creation succeeds. Issuing directly on the change bin throws
  the same error.
\<close>

theorem createTx_surplus_throws:
  "createTx_unwrapped env0 ''acct'' 1 0 [pay_out 5 [0xee]] 1 (vault_of db_acct) =
     (vault_of db_acct, Inl (AccountCannotIssueChangeScript ''acct'')) \<and>
   (\<exists>tx. createTx_unwrapped env0 ''acct'' 1 0 [pay_out 9 [0xee]] 1 (vault_of db_acct) =
     (vault_of db_acct, Inr tx)) \<and>
   issueSigningScript env0 ''acct'' ''@change'' ''label'' (vault_of db_acct) =
     (vault_of db_acct, Inl (AccountCannotIssueChangeScript ''acct''))"
  by (simp add: createTx_unwrapped_def getAccount_unwrapped_def TxOutView_unspent_def
        getAccountBin_unwrapped_def AccountBinView_def load_bin_def load_account_def
        issueAccountBinSigningScript_unwrapped_def issueSigningScript_def rollback_def
        AccountBin_isChange_def new_TxIn_def Let_def
        env0_def db_acct_def db_empty_def funding_tx_def script_of_def vault_of_def pay_out_def)

subsection \<open>Unfolding the examples\<close>

lemmas ex_defs = env0_def db_acct_def db_empty_def funding_tx_def script_of_def vault_of_def pay_out_def
  toy_mergesigs_def spend_tx_def db_dup_def

lemmas ex_defs2 = ex_defs vault_unlocked_def db_sign_def db_signed_def

lemmas ev_defs =
  insertTx_unwrapped_def insertTx_new_def Tx_updateStatus_def Tx_missingSigCount_def
  Tx_updateStatus_to_def Tx_assign_ids_def TxIn_tx_def update_txout_def TxOut_spent_def
  load_bin_def load_account_def update_tx_def persist_tx_def update_script_def
  updateConfirmations_unwrapped_def ConfirmedTxView_def load_script_def scripts_insert_def
  mark_spent_out_of_order_def db_txins_def db_txouts_def Let_def

subsection \<open>A stored transaction with the same unsigned hash\<close>

lemma replace_scripts_eq:
  "i + length xs \<le> length txins \<Longrightarrow>
   replace_scripts xs txins i db =
     Inr (map (\<lambda>(a, b). spec_replace_input a b) (zip xs (drop i txins)),
          fold update_txin (map (\<lambda>(a, b). spec_replace_input a b) (zip xs (drop i txins))) db)"
proof (induction xs arbitrary: i db)
  case Nil
  then show ?case by simp
next
  case (Cons x xs)
  then have i: "i < length txins" and r: "Suc i + length xs \<le> length txins" by simp_all
  have d: "drop i txins = txins ! i # drop (Suc i) txins"
    using i by (simp add: Cons_nth_drop_Suc)
  show ?case
    using i Cons.IH [OF r] by (simp add: d Let_def spec_replace_input_def)
qed

lemma merge_scripts_eq:
  "i + length xs \<le> length txins \<Longrightarrow>
   merge_scripts cap xs txins i db upd =
     Inr (map (\<lambda>(a, b). spec_merge_input cap a b) (zip xs (drop i txins)),
          fold update_txin
            (map (\<lambda>(a, b). spec_merge_input cap a b)
               (filter (\<lambda>(a, b). spec_sigs_added cap a b > 0) (zip xs (drop i txins)))) db,
          upd \<or> (\<exists>(a, b) \<in> set (zip xs (drop i txins)). spec_sigs_added cap a b > 0))"
proof (induction xs arbitrary: i db upd)
  case Nil
  then show ?case by simp
next
  case (Cons x xs)
  then have i: "i < length txins" and r: "Suc i + length xs \<le> length txins" by simp_all
  have d: "drop i txins = txins ! i # drop (Suc i) txins"
    using i by (simp add: Cons_nth_drop_Suc)
  show ?case
    using i Cons.IH [OF r]
    by (auto simp: d Let_def spec_merge_input_def spec_sigs_added_def split: prod.splits)
qed

lemma Tx_updateStatus_fields [simp]:
  "tx_txins (Tx_updateStatus cap tx) = tx_txins tx"
  "tx_unsigned_hash (Tx_updateStatus cap tx) = tx_unsigned_hash tx"
  "tx_hash (Tx_updateStatus cap tx) = tx_hash tx"
  "tx_txouts (Tx_updateStatus cap tx) = tx_txouts tx"
  by (simp_all add: Tx_updateStatus_def)

lemma update_txin_ids [simp]: "map tx_id (db_txs (update_txin i db)) = map tx_id (db_txs db)"
  by (simp add: update_txin_def comp_def)

lemma fold_update_txin_ids [simp]:
  "map tx_id (db_txs (fold update_txin is db)) = map tx_id (db_txs db)"
  by (induction "is" arbitrary: db) simp_all

lemma update_tx_mem:
  "tx_id t \<in> set (map tx_id (db_txs db)) \<Longrightarrow> t \<in> set (db_txs (update_tx t db))"
  by (auto simp: update_tx_def)

text \<open>
  Claim C2. Let the first stored transaction with the unsigned hash of the incoming
  transaction be \<open>S\<close>, UNSIGNED, with as many inputs as the incoming one at most. If the
  incoming transaction is signed (its recomputed status is not UNSIGNED), every input of
  \<open>S\<close> takes the script of the incoming input at its position, \<open>S\<close> takes the status of
  the incoming transaction, its row is updated and it is returned. If both are
  UNSIGNED, the signatures are merged input by input: when some input gained a
  signature, the inputs that gained one are rewritten in EDIT form and updated, and \<open>S\<close>
  is returned; otherwise nothing is returned and the vault is unchanged.
\<close>

theorem insertTx_duplicate_reconciles:
  assumes dup: "filter (\<lambda>t. tx_unsigned_hash t = tx_unsigned_hash tx0) (db_txs (v_db v)) = S # rest"
    and st: "tx_status S = UNSIGNED"
    and len: "length (tx_txins S) \<le> length (tx_txins tx0)"
  shows
   "(tx_status (Tx_updateStatus cap tx0) \<noteq> UNSIGNED \<longrightarrow>
       insertTx_unwrapped cap tx0 v =
         (v\<lparr>v_db := update_tx
                (S\<lparr>tx_txins := map (\<lambda>(a, b). spec_replace_input a b) (zip (tx_txins S) (tx_txins tx0)),
                   tx_status := tx_status (Tx_updateStatus cap tx0)\<rparr>)
                (fold update_txin
                   (map (\<lambda>(a, b). spec_replace_input a b) (zip (tx_txins S) (tx_txins tx0)))
                   (v_db v))\<rparr>,
          Inr (Some (S\<lparr>tx_txins := map (\<lambda>(a, b). spec_replace_input a b)
                                      (zip (tx_txins S) (tx_txins tx0)),
                        tx_status := tx_status (Tx_updateStatus cap tx0)\<rparr>))) \<and>
       S\<lparr>tx_txins := map (\<lambda>(a, b). spec_replace_input a b) (zip (tx_txins S) (tx_txins tx0)),
         tx_status := tx_status (Tx_updateStatus cap tx0)\<rparr>
         \<in> set (db_txs (v_db (fst (insertTx_unwrapped cap tx0 v))))) \<and>
    (tx_status (Tx_updateStatus cap tx0) = UNSIGNED \<longrightarrow>
       insertTx_unwrapped cap tx0 v =
         (if \<exists>(a, b) \<in> set (zip (tx_txins S) (tx_txins tx0)). spec_sigs_added cap a b > 0
          then (v\<lparr>v_db := fold update_txin
                     (map (\<lambda>(a, b). spec_merge_input cap a b)
                        (filter (\<lambda>(a, b). spec_sigs_added cap a b > 0)
                           (zip (tx_txins S) (tx_txins tx0))))
                     (v_db v)\<rparr>,
                Inr (Some (S\<lparr>tx_txins := map (\<lambda>(a, b). spec_merge_input cap a b)
                                            (zip (tx_txins S) (tx_txins tx0))\<rparr>)))
          else (v, Inr None)))"
proof -
  let ?tx = "Tx_updateStatus cap tx0"
  have e: "insertTx_unwrapped cap tx0 v =
     (case insertTx_duplicate cap ?tx S (v_db v) of
        Inl e \<Rightarrow> (v, Inl e)
      | Inr (db1, r) \<Rightarrow> (v\<lparr>v_db := db1\<rparr>, Inr r))"
    by (simp add: insertTx_unwrapped_def Let_def dup)
  have l: "0 + length (tx_txins S) \<le> length (tx_txins ?tx)" using len by simp
  have Sin: "tx_id S \<in> set (map tx_id (db_txs (v_db v)))"
    using dup by (auto dest!: filter_eq_ConsD)
  have A: "insertTx_duplicate cap ?tx S (v_db v) =
      Inr (update_tx
                (S\<lparr>tx_txins := map (\<lambda>(a, b). spec_replace_input a b) (zip (tx_txins S) (tx_txins tx0)),
                   tx_status := tx_status ?tx\<rparr>)
                (fold update_txin
                   (map (\<lambda>(a, b). spec_replace_input a b) (zip (tx_txins S) (tx_txins tx0)))
                   (v_db v)),
           Some (S\<lparr>tx_txins := map (\<lambda>(a, b). spec_replace_input a b)
                                      (zip (tx_txins S) (tx_txins tx0)),
                        tx_status := tx_status ?tx\<rparr>))"
    if "tx_status ?tx \<noteq> UNSIGNED"
    using that st replace_scripts_eq [OF l, of "v_db v"]
    by (simp add: insertTx_duplicate_def Let_def Tx_updateStatus_to_def)
  have B: "insertTx_duplicate cap ?tx S (v_db v) =
      Inr (fold update_txin
                     (map (\<lambda>(a, b). spec_merge_input cap a b)
                        (filter (\<lambda>(a, b). spec_sigs_added cap a b > 0)
                           (zip (tx_txins S) (tx_txins tx0))))
                     (v_db v),
           if \<exists>(a, b) \<in> set (zip (tx_txins S) (tx_txins tx0)). spec_sigs_added cap a b > 0
           then Some (S\<lparr>tx_txins := map (\<lambda>(a, b). spec_merge_input cap a b)
                                            (zip (tx_txins S) (tx_txins tx0))\<rparr>)
           else None)"
    if "tx_status ?tx = UNSIGNED"
    using that st merge_scripts_eq [OF l, of cap "v_db v" False]
    by (simp add: insertTx_duplicate_def Let_def)
  have nofilter: "filter (\<lambda>(a, b). spec_sigs_added cap a b > 0) (zip (tx_txins S) (tx_txins tx0)) = []"
    if "\<not> (\<exists>(a, b) \<in> set (zip (tx_txins S) (tx_txins tx0)). spec_sigs_added cap a b > 0)"
    using that by (auto simp: filter_empty_conv)
  have C: "S\<lparr>tx_txins := map (\<lambda>(a, b). spec_replace_input a b) (zip (tx_txins S) (tx_txins tx0)),
         tx_status := tx_status ?tx\<rparr>
         \<in> set (db_txs (update_tx
                (S\<lparr>tx_txins := map (\<lambda>(a, b). spec_replace_input a b) (zip (tx_txins S) (tx_txins tx0)),
                   tx_status := tx_status ?tx\<rparr>)
                (fold update_txin
                   (map (\<lambda>(a, b). spec_replace_input a b) (zip (tx_txins S) (tx_txins tx0)))
                   (v_db v))))"
    by (rule update_tx_mem) (use Sin in simp)
  show ?thesis
  proof (intro conjI impI)
    assume n: "tx_status ?tx \<noteq> UNSIGNED"
    show "insertTx_unwrapped cap tx0 v =
         (v\<lparr>v_db := update_tx
                (S\<lparr>tx_txins := map (\<lambda>(a, b). spec_replace_input a b) (zip (tx_txins S) (tx_txins tx0)),
                   tx_status := tx_status ?tx\<rparr>)
                (fold update_txin
                   (map (\<lambda>(a, b). spec_replace_input a b) (zip (tx_txins S) (tx_txins tx0)))
                   (v_db v))\<rparr>,
          Inr (Some (S\<lparr>tx_txins := map (\<lambda>(a, b). spec_replace_input a b)
                                      (zip (tx_txins S) (tx_txins tx0)),
                        tx_status := tx_status ?tx\<rparr>)))"
      unfolding e A [OF n] by simp
    show "S\<lparr>tx_txins := map (\<lambda>(a, b). spec_replace_input a b) (zip (tx_txins S) (tx_txins tx0)),
         tx_status := tx_status ?tx\<rparr>
         \<in> set (db_txs (v_db (fst (insertTx_unwrapped cap tx0 v))))"
      unfolding e A [OF n] using C by simp
  next
    assume u: "tx_status ?tx = UNSIGNED"
    show "insertTx_unwrapped cap tx0 v =
         (if \<exists>(a, b) \<in> set (zip (tx_txins S) (tx_txins tx0)). spec_sigs_added cap a b > 0
          then (v\<lparr>v_db := fold update_txin
                     (map (\<lambda>(a, b). spec_merge_input cap a b)
                        (filter (\<lambda>(a, b). spec_sigs_added cap a b > 0)
                           (zip (tx_txins S) (tx_txins tx0))))
                     (v_db v)\<rparr>,
                Inr (Some (S\<lparr>tx_txins := map (\<lambda>(a, b). spec_merge_input cap a b)
                                            (zip (tx_txins S) (tx_txins tx0))\<rparr>)))
          else (v, Inr None))"
      unfolding e B [OF u] using nofilter by (simp split: if_splits)
  qed
qed

theorem insertTx_duplicate_reconciles_witness:
  "filter (\<lambda>t. tx_unsigned_hash t = [0x22]) (db_txs db_dup) =
     [spend_tx 2 [0x21] [0x22] UNSIGNED 1 [0xf0] 0 [0, 0] []] \<and>
   insertTx_unwrapped env0 (spend_tx 0 [0x23] [0x22] UNSIGNED 0 [0xf0] 0 [5, 6] []) (vault_of db_dup) =
     (vault_of (db_dup\<lparr>db_txs := [funding_tx, spend_tx 2 [0x21] [0x22] UNSENT 1 [0xf0] 0 [5, 6] []]\<rparr>),
      Inr (Some (spend_tx 2 [0x21] [0x22] UNSENT 1 [0xf0] 0 [5, 6] []))) \<and>
   insertTx_unwrapped env0 (spend_tx 0 [0x24] [0x22] UNSIGNED 0 [0xf0] 0 [5, 0] []) (vault_of db_dup) =
     (vault_of (db_dup\<lparr>db_txs := [funding_tx, spend_tx 2 [0x21] [0x22] UNSIGNED 1 [0xf0] 0 [5, 0] []]\<rparr>),
      Inr (Some (spend_tx 2 [0x21] [0x22] UNSIGNED 1 [0xf0] 0 [5, 0] []))) \<and>
   insertTx_unwrapped env0 (spend_tx 0 [0x21] [0x22] UNSIGNED 0 [0xf0] 0 [0, 0] []) (vault_of db_dup) =
     (vault_of db_dup, Inr None)"
proof -
  let ?S = "spend_tx 2 [0x21] [0x22] UNSIGNED 1 [0xf0] 0 [0, 0] []"
  have dup: "filter (\<lambda>t. tx_unsigned_hash t = tx_unsigned_hash (spend_tx 0 h [0x22] UNSIGNED 0 [0xf0] 0 s []))
               (db_txs (v_db (vault_of db_dup))) = ?S # []" for h s
    by (simp add: ex_defs)
  have st: "tx_status ?S = UNSIGNED" by (simp add: ex_defs)
  have len: "length (tx_txins ?S) \<le> length (tx_txins (spend_tx 0 h [0x22] UNSIGNED 0 [0xf0] 0 s []))" for h s
    by (simp add: ex_defs)
  note defs = Tx_updateStatus_def Tx_missingSigCount_def spec_replace_input_def spec_sigs_added_def
    spec_merge_input_def update_txin_def update_tx_def ex_defs
  have a: "filter (\<lambda>t. tx_unsigned_hash t = [0x22]) (db_txs db_dup) = [?S]"
    by (simp add: ex_defs)
  from insertTx_duplicate_reconciles [OF dup [of "[0x23]" "[5, 6]"] st len [of "[0x23]" "[5, 6]"], where cap = env0]
  have b: "insertTx_unwrapped env0 (spend_tx 0 [0x23] [0x22] UNSIGNED 0 [0xf0] 0 [5, 6] []) (vault_of db_dup) =
     (vault_of (db_dup\<lparr>db_txs := [funding_tx, spend_tx 2 [0x21] [0x22] UNSENT 1 [0xf0] 0 [5, 6] []]\<rparr>),
      Inr (Some (spend_tx 2 [0x21] [0x22] UNSENT 1 [0xf0] 0 [5, 6] [])))"
    by (simp add: defs)
  from insertTx_duplicate_reconciles [OF dup [of "[0x24]" "[5, 0]"] st len [of "[0x24]" "[5, 0]"], where cap = env0]
  have c: "insertTx_unwrapped env0 (spend_tx 0 [0x24] [0x22] UNSIGNED 0 [0xf0] 0 [5, 0] []) (vault_of db_dup) =
     (vault_of (db_dup\<lparr>db_txs := [funding_tx, spend_tx 2 [0x21] [0x22] UNSIGNED 1 [0xf0] 0 [5, 0] []]\<rparr>),
      Inr (Some (spend_tx 2 [0x21] [0x22] UNSIGNED 1 [0xf0] 0 [5, 0] [])))"
    by (simp add: defs)
  from insertTx_duplicate_reconciles [OF dup [of "[0x21]" "[0, 0]"] st len [of "[0x21]" "[0, 0]"], where cap = env0]
  have d: "insertTx_unwrapped env0 (spend_tx 0 [0x21] [0x22] UNSIGNED 0 [0xf0] 0 [0, 0] []) (vault_of db_dup) =
     (vault_of db_dup, Inr None)"
    by (simp add: defs)
  from a b c d show ?thesis by blast
qed

subsection \<open>Signing\<close>

lemma sign_with_keys_count:
  "sign_with_keys cap v h keys script a n = Inr (script1, a1, n1) \<Longrightarrow>
     a \<le> a1 \<and> (a1 = a \<longrightarrow> script1 = script \<and> n1 = n) \<and>
     (a < a1 \<longrightarrow> (\<exists>p sg s. script1 = Script_addSig cap p sg s))"
proof (induction keys arbitrary: script a n)
  case Nil
  then show ?case by simp
next
  case (Cons key keys)
  let ?s = "Script_addSig cap (key_pubkey key)
              (secp256k1_sign cap (Key_try_privkey cap key) h @ [SIGHASH_ALL]) script"
  from Cons.prems consider
      (skip) "sign_with_keys cap v h keys script a n = Inr (script1, a1, n1)"
    | (brk) "script1 = ?s" "a1 = a + 1"
    | (rec) "sign_with_keys cap v h keys ?s (a + 1) (n - 1) = Inr (script1, a1, n1)"
    by (auto split: sum.splits bool.splits if_splits simp: Let_def)
  then show ?case
  proof cases
    case skip
    from Cons.IH [OF skip] show ?thesis .
  next
    case brk
    then show ?thesis by auto
  next
    case rec
    from Cons.IH [OF rec] show ?thesis by (cases "a1 = a + 1") auto
  qed
qed

lemma sign_txins_effect:
  "sign_txins cap v tx done txins a = Inr (txins1, a1) \<Longrightarrow>
     a \<le> a1 \<and> length txins1 = length done + length txins \<and> take (length done) txins1 = done \<and>
     (a1 = a \<longrightarrow>
        (\<forall>i < length txins.
           txins1 ! (length done + i) = txins ! i \<or>
           txins1 ! (length done + i) =
             (txins ! i)\<lparr>txin_script :=
                Script_txinscript cap EDIT (Script cap (txin_script (txins ! i)))\<rparr>)) \<and>
     (a < a1 \<longrightarrow>
        (\<exists>i < length txins. \<exists>p sg s f.
           txin_script (txins1 ! (length done + i)) = Script_txinscript cap f (Script_addSig cap p sg s)))"
proof (induction txins arbitrary: "done" a)
  case Nil
  then show ?case by simp
next
  case (Cons txin txins)
  let ?script = "Script cap (txin_script txin)"
  from Cons.prems consider
      (skip) "sign_txins cap v tx (done @ [txin]) txins a = Inr (txins1, a1)"
    | (sign) script1 a2 n2 h where
        "sign_with_keys cap v h
           (filter (\<lambda>k. key_is_private k \<and> key_pubkey k \<in> set (Script_missingsigs cap ?script))
              (db_keys (v_db v)))
           ?script a (Script_sigsneeded cap ?script) = Inr (script1, a2, n2)"
        "Script_sigsneeded cap ?script \<noteq> 0"
        "sign_txins cap v tx
           (done @ [txin\<lparr>txin_script :=
                      Script_txinscript cap (if n2 \<noteq> 0 then EDIT else BROADCAST) script1\<rparr>])
           txins a2 = Inr (txins1, a1)"
    by (auto split: sum.splits list.splits if_splits simp: Let_def)
  then show ?case
  proof cases
    case skip
    note ih = Cons.IH [OF skip]
    have len: "length txins1 = length done + length (txin # txins)" using ih by simp
    have tk: "take (length done) txins1 = done"
    proof -
      have "take (length done) (take (length (done @ [txin])) txins1) = take (length done) (done @ [txin])"
        using ih by simp
      then show ?thesis by (simp add: min_def)
    qed
    have at: "txins1 ! length done = txin"
    proof -
      have "take (length (done @ [txin])) txins1 ! length done = (done @ [txin]) ! length done"
        using ih by simp
      then show ?thesis by simp
    qed
    have z: "\<forall>i < length (txin # txins).
           txins1 ! (length done + i) = (txin # txins) ! i \<or>
           txins1 ! (length done + i) =
             ((txin # txins) ! i)\<lparr>txin_script :=
                Script_txinscript cap EDIT (Script cap (txin_script ((txin # txins) ! i)))\<rparr>"
      if "a1 = a"
    proof (intro allI impI)
      fix i assume "i < length (txin # txins)"
      show "txins1 ! (length done + i) = (txin # txins) ! i \<or>
           txins1 ! (length done + i) =
             ((txin # txins) ! i)\<lparr>txin_script :=
                Script_txinscript cap EDIT (Script cap (txin_script ((txin # txins) ! i)))\<rparr>"
      proof (cases i)
        case 0
        then show ?thesis using at by simp
      next
        case (Suc j)
        with \<open>i < length (txin # txins)\<close> have j: "j < length txins" by simp
        from ih that j have "txins1 ! (length (done @ [txin]) + j) = txins ! j \<or>
           txins1 ! (length (done @ [txin]) + j) =
             (txins ! j)\<lparr>txin_script :=
                Script_txinscript cap EDIT (Script cap (txin_script (txins ! j)))\<rparr>" by blast
        then show ?thesis using Suc by simp
      qed
    qed
    have p: "\<exists>i < length (txin # txins). \<exists>p sg s f.
           txin_script (txins1 ! (length done + i)) = Script_txinscript cap f (Script_addSig cap p sg s)"
      if "a < a1"
    proof -
      from ih that obtain j p sg s f where "j < length txins"
        "txin_script (txins1 ! (length (done @ [txin]) + j)) = Script_txinscript cap f (Script_addSig cap p sg s)"
        by blast
      then show ?thesis by (intro exI [of _ "Suc j"]) auto
    qed
    from ih len tk z p show ?thesis by blast
  next
    case sign
    let ?new = "txin\<lparr>txin_script :=
                      Script_txinscript cap (if n2 \<noteq> 0 then EDIT else BROADCAST) script1\<rparr>"
    note k = sign_with_keys_count [OF sign(1)]
    note ih = Cons.IH [OF sign(3)]
    have len: "length txins1 = length done + length (txin # txins)" using ih by simp
    have tk: "take (length done) txins1 = done"
    proof -
      have "take (length done) (take (length (done @ [?new])) txins1) = take (length done) (done @ [?new])"
        using ih by simp
      then show ?thesis by (simp add: min_def)
    qed
    have at: "txins1 ! length done = ?new"
    proof -
      have "take (length (done @ [?new])) txins1 ! length done = (done @ [?new]) ! length done"
        using ih by simp
      then show ?thesis by simp
    qed
    have le: "a \<le> a1" using k ih by simp
    have z: "\<forall>i < length (txin # txins).
           txins1 ! (length done + i) = (txin # txins) ! i \<or>
           txins1 ! (length done + i) =
             ((txin # txins) ! i)\<lparr>txin_script :=
                Script_txinscript cap EDIT (Script cap (txin_script ((txin # txins) ! i)))\<rparr>"
      if "a1 = a"
    proof (intro allI impI)
      from that k ih have a2: "a2 = a" "a1 = a2" by auto
      with k have same: "script1 = ?script" "n2 = Script_sigsneeded cap ?script" by auto
      fix i assume "i < length (txin # txins)"
      show "txins1 ! (length done + i) = (txin # txins) ! i \<or>
           txins1 ! (length done + i) =
             ((txin # txins) ! i)\<lparr>txin_script :=
                Script_txinscript cap EDIT (Script cap (txin_script ((txin # txins) ! i)))\<rparr>"
      proof (cases i)
        case 0
        then show ?thesis using at same sign(2) by simp
      next
        case (Suc j)
        with \<open>i < length (txin # txins)\<close> have j: "j < length txins" by simp
        from ih a2 j have "txins1 ! (length (done @ [?new]) + j) = txins ! j \<or>
           txins1 ! (length (done @ [?new]) + j) =
             (txins ! j)\<lparr>txin_script :=
                Script_txinscript cap EDIT (Script cap (txin_script (txins ! j)))\<rparr>" by blast
        then show ?thesis using Suc by simp
      qed
    qed
    have p: "\<exists>i < length (txin # txins). \<exists>p sg s f.
           txin_script (txins1 ! (length done + i)) = Script_txinscript cap f (Script_addSig cap p sg s)"
      if "a < a1"
    proof (cases "a < a2")
      case True
      with k obtain p sg s where "script1 = Script_addSig cap p sg s" by blast
      then have "txin_script (txins1 ! (length done + 0)) =
                   Script_txinscript cap (if n2 \<noteq> 0 then EDIT else BROADCAST) (Script_addSig cap p sg s)"
        using at by simp
      then show ?thesis by (intro exI [of _ 0]) auto
    next
      case False
      with k that have "a2 < a1" by simp
      with ih obtain j p sg s f where "j < length txins"
        "txin_script (txins1 ! (length (done @ [?new]) + j)) = Script_txinscript cap f (Script_addSig cap p sg s)"
        by blast
      then show ?thesis by (intro exI [of _ "Suc j"]) auto
    qed
    from le len tk z p show ?thesis by blast
  qed
qed

lemma sign_txins_complete:
  "\<forall>txin \<in> set txins. Script_sigsneeded cap (Script cap (txin_script txin)) = 0 \<Longrightarrow>
   sign_txins cap v tx done txins a = Inr (done @ txins, a)"
  by (induction txins arbitrary: "done") (simp_all add: Let_def)

text \<open>
  Claim C7. When \<open>signTx_unwrapped\<close> returns false, the transaction is the one it was
  given, with every input unchanged or rewritten in EDIT form from its own script: no
  signature was added. When it returns true, some input carries a script to which a
  signature was added, and the status is recomputed. A transaction without missing
  signatures gives false and is returned as it is; so signing to completion and
  signing again returns false and leaves the transaction as it is, and the public
  \<open>signTx\<close> on a complete stored transaction returns false and leaves the vault
  unchanged.
\<close>

theorem signTx_false_iff_no_signature_added:
  "(signTx_unwrapped cap v tx = Inr (tx1, rval) \<longrightarrow>
      length (tx_txins tx1) = length (tx_txins tx) \<and>
      (\<not> rval \<longrightarrow>
         tx1 = tx\<lparr>tx_txins := tx_txins tx1\<rparr> \<and>
         (\<forall>i < length (tx_txins tx).
            tx_txins tx1 ! i = tx_txins tx ! i \<or>
            tx_txins tx1 ! i =
              (tx_txins tx ! i)\<lparr>txin_script :=
                 Script_txinscript cap EDIT (Script cap (txin_script (tx_txins tx ! i)))\<rparr>)) \<and>
      (rval \<longrightarrow>
         tx1 = Tx_updateStatus cap (tx\<lparr>tx_txins := tx_txins tx1\<rparr>) \<and>
         (\<exists>i < length (tx_txins tx). \<exists>p sg s f.
            txin_script (tx_txins tx1 ! i) = Script_txinscript cap f (Script_addSig cap p sg s)))) \<and>
   ((\<forall>txin \<in> set (tx_txins tx). Script_sigsneeded cap (Script cap (txin_script txin)) = 0) \<longrightarrow>
      signTx_unwrapped cap v tx = Inr (tx, False)) \<and>
   (signTx_unwrapped cap v tx = Inr (tx1, True) \<and> tx_status tx1 \<noteq> UNSIGNED \<longrightarrow>
      signTx_unwrapped cap v tx1 = Inr (tx1, False)) \<and>
   (filter (\<lambda>t. tx_unsigned_hash t = h) (db_txs (v_db v)) = tx # rest \<and>
    (\<forall>txin \<in> set (tx_txins tx). Script_sigsneeded cap (Script cap (txin_script txin)) = 0) \<longrightarrow>
      signTx cap h update v = (v, Inr False))"
proof -
  have complete: "signTx_unwrapped cap v t = Inr (t, False)"
    if "\<forall>txin \<in> set (tx_txins t). Script_sigsneeded cap (Script cap (txin_script txin)) = 0" for t
    using sign_txins_complete [OF that, of v t "[]" 0]
    by (simp add: signTx_unwrapped_def)
  have A: "length (tx_txins tx1) = length (tx_txins tx) \<and>
      (\<not> rval \<longrightarrow>
         tx1 = tx\<lparr>tx_txins := tx_txins tx1\<rparr> \<and>
         (\<forall>i < length (tx_txins tx).
            tx_txins tx1 ! i = tx_txins tx ! i \<or>
            tx_txins tx1 ! i =
              (tx_txins tx ! i)\<lparr>txin_script :=
                 Script_txinscript cap EDIT (Script cap (txin_script (tx_txins tx ! i)))\<rparr>)) \<and>
      (rval \<longrightarrow>
         tx1 = Tx_updateStatus cap (tx\<lparr>tx_txins := tx_txins tx1\<rparr>) \<and>
         (\<exists>i < length (tx_txins tx). \<exists>p sg s f.
            txin_script (tx_txins tx1 ! i) = Script_txinscript cap f (Script_addSig cap p sg s)))"
    if s: "signTx_unwrapped cap v tx = Inr (tx1, rval)" for tx1 rval
  proof -
    from s obtain txins n where
      l: "sign_txins cap v tx [] (tx_txins tx) 0 = Inr (txins, n)" and
      r: "rval = (n \<noteq> 0)" and
      t: "tx1 = (if n = 0 then tx\<lparr>tx_txins := txins\<rparr> else Tx_updateStatus cap (tx\<lparr>tx_txins := txins\<rparr>))"
      by (auto simp: signTx_unwrapped_def split: sum.splits if_splits)
    have ti: "tx_txins tx1 = txins" using t by simp
    from sign_txins_effect [OF l] ti r t show ?thesis by simp
  qed
  have C: "signTx_unwrapped cap v tx1 = Inr (tx1, False)"
    if s: "signTx_unwrapped cap v tx = Inr (tx1, True)" and u: "tx_status tx1 \<noteq> UNSIGNED"
  proof -
    from A [OF s] have e: "tx1 = Tx_updateStatus cap (tx\<lparr>tx_txins := tx_txins tx1\<rparr>)" by simp
    have "Tx_missingSigCount cap (tx\<lparr>tx_txins := tx_txins tx1\<rparr>) = 0"
    proof (rule ccontr)
      assume "Tx_missingSigCount cap (tx\<lparr>tx_txins := tx_txins tx1\<rparr>) \<noteq> 0"
      then have "tx_status (Tx_updateStatus cap (tx\<lparr>tx_txins := tx_txins tx1\<rparr>)) = UNSIGNED"
        by (simp add: Tx_updateStatus_def)
      with e u show False by simp
    qed
    then have "\<forall>txin \<in> set (tx_txins tx1). Script_sigsneeded cap (Script cap (txin_script txin)) = 0"
      by (simp add: Tx_missingSigCount_def)
    then show ?thesis by (rule complete)
  qed
  have D: "signTx cap h update v = (v, Inr False)"
    if "filter (\<lambda>t. tx_unsigned_hash t = h) (db_txs (v_db v)) = tx # rest"
      and "\<forall>txin \<in> set (tx_txins tx). Script_sigsneeded cap (Script cap (txin_script txin)) = 0"
    using that complete [OF that(2)] by (simp add: signTx_def)
  from A complete C D show ?thesis by blast
qed

theorem signTx_false_iff_no_signature_added_witness:
  "signTx_unwrapped env0 (vault_unlocked db_sign) (spend_tx 2 [0x21] [0x22] UNSIGNED 1 [0xf0] 0 [0] []) =
     Inr (spend_tx 2 [0x21] [0x22] UNSENT 1 [0xf0] 0 [7] [], True) \<and>
   tx_status (spend_tx 2 [0x21] [0x22] UNSENT 1 [0xf0] 0 [7] []) \<noteq> UNSIGNED \<and>
   signTx_unwrapped env0 (vault_unlocked db_sign) (spend_tx 2 [0x21] [0x22] UNSENT 1 [0xf0] 0 [7] []) =
     Inr (spend_tx 2 [0x21] [0x22] UNSENT 1 [0xf0] 0 [7] [], False) \<and>
   signTx_unwrapped env0 (vault_of db_sign) (spend_tx 2 [0x21] [0x22] UNSIGNED 1 [0xf0] 0 [0] []) =
     Inr (spend_tx 2 [0x21] [0x22] UNSIGNED 1 [0xf0] 0 [0] [], False) \<and>
   filter (\<lambda>t. tx_unsigned_hash t = [0x22]) (db_txs db_signed) =
     [spend_tx 2 [0x21] [0x22] UNSENT 1 [0xf0] 0 [7] []] \<and>
   signTx env0 [0x22] True (vault_unlocked db_signed) = (vault_unlocked db_signed, Inr False)"
proof -
  note defs = signTx_unwrapped_def Let_def load_keychain_def tryUnlockKeychainPrivateKey_unwrapped_def
      tryUnlockKeychainChainCode_unwrapped_def Tx_updateStatus_def Tx_missingSigCount_def
      SIGHASH_ALL_def ex_defs2
  have s1: "signTx_unwrapped env0 (vault_unlocked db_sign) (spend_tx 2 [0x21] [0x22] UNSIGNED 1 [0xf0] 0 [0] []) =
     Inr (spend_tx 2 [0x21] [0x22] UNSENT 1 [0xf0] 0 [7] [], True)"
    by (simp add: defs)
  have s2: "signTx_unwrapped env0 (vault_of db_sign) (spend_tx 2 [0x21] [0x22] UNSIGNED 1 [0xf0] 0 [0] []) =
     Inr (spend_tx 2 [0x21] [0x22] UNSIGNED 1 [0xf0] 0 [0] [], False)"
    by (simp add: defs)
  have u: "tx_status (spend_tx 2 [0x21] [0x22] UNSENT 1 [0xf0] 0 [7] []) \<noteq> UNSIGNED"
    by (simp add: spend_tx_def)
  have f: "filter (\<lambda>t. tx_unsigned_hash t = [0x22]) (db_txs db_signed) =
     [spend_tx 2 [0x21] [0x22] UNSENT 1 [0xf0] 0 [7] []]"
    by (simp add: ex_defs2)
  have f': "filter (\<lambda>t. tx_unsigned_hash t = [0x22]) (db_txs (v_db (vault_unlocked db_signed))) =
     spend_tx 2 [0x21] [0x22] UNSENT 1 [0xf0] 0 [7] [] # []"
    using f by (simp add: vault_unlocked_def)
  have g: "\<forall>txin \<in> set (tx_txins (spend_tx 2 [0x21] [0x22] UNSENT 1 [0xf0] 0 [7] [])).
             Script_sigsneeded env0 (Script env0 (txin_script txin)) = 0"
    by (simp add: ex_defs2)
  from signTx_false_iff_no_signature_added
         [where cap = env0 and v = "vault_unlocked db_sign"
            and tx = "spend_tx 2 [0x21] [0x22] UNSIGNED 1 [0xf0] 0 [0] []"
            and ?tx1.0 = "spend_tx 2 [0x21] [0x22] UNSENT 1 [0xf0] 0 [7] []" and rval = True]
       signTx_false_iff_no_signature_added
         [where cap = env0 and v = "vault_unlocked db_signed"
            and tx = "spend_tx 2 [0x21] [0x22] UNSENT 1 [0xf0] 0 [7] []"
            and h = "[0x22]" and rest = "[]" and update = True]
       s1 s2 u f f' g
  show ?thesis by blast
qed

subsection \<open>Spent status and back-link\<close>

lemma slc_iff:
  "spent_links_consistent db = (\<forall>t \<in> set (db_txs db). \<forall>x \<in> set (tx_txouts t). TxOut_consistent x)"
  by (simp add: spent_links_consistent_def list_all_iff)

lemma TxOut_spent_consistent [simp]: "TxOut_consistent (TxOut_spent s x)"
  by (cases s) (simp_all add: TxOut_consistent_def TxOut_spent_def)


lemma slc_update_txin:
  "spent_links_consistent db \<Longrightarrow> spent_links_consistent (update_txin x db)"
  by (auto simp: slc_iff update_txin_def)

lemma slc_fold_update_txin:
  "spent_links_consistent db \<Longrightarrow> spent_links_consistent (fold update_txin xs db)"
  by (induction xs arbitrary: db) (simp_all add: slc_update_txin)








lemma check_inputs_step:
  assumes "check_inputs own otx (txin # txins) db st = Inr (db', st')"
  obtains
    (unknown) "filter (\<lambda>t. tx_hash t = txin_outhash txin) (db_txs db) = []"
      "check_inputs own otx txins db (st\<lparr>have_all_outpoints := False\<rparr>) = Inr (db', st')"
  | (foreign) spent_tx rest conflicting where
      "filter (\<lambda>t. tx_hash t = txin_outhash txin) (db_txs db) = spent_tx # rest"
      "unat (txin_outindex txin) < length (tx_txouts spent_tx)"
      "filter (\<lambda>s. ss_txoutscript s = txout_script (tx_txouts spent_tx ! unat (txin_outindex txin)))
         (db_scripts db) = []"
      "check_inputs own otx txins db
         (st\<lparr>conflicting_txs := conflicting,
             input_total := input_total st + txout_value (tx_txouts spent_tx ! unat (txin_outindex txin))\<rparr>)
       = Inr (db', st')"
      "(case txout_spent (tx_txouts spent_tx ! unat (txin_outindex txin)) of
          None \<Rightarrow> Inr (conflicting_txs st)
        | Some conflict_txin \<Rightarrow>
            if conflict_txin \<in> set own then Inr (List.insert otx (conflicting_txs st))
            else (case TxIn_tx db conflict_txin of
                    Inl e \<Rightarrow> Inl e
                  | Inr t \<Rightarrow> Inr (List.insert (tx_id t) (conflicting_txs st)))) = Inr conflicting"
  | (owned) spent_tx rest conflicting script scripts st1 where
      "filter (\<lambda>t. tx_hash t = txin_outhash txin) (db_txs db) = spent_tx # rest"
      "unat (txin_outindex txin) < length (tx_txouts spent_tx)"
      "filter (\<lambda>s. ss_txoutscript s = txout_script (tx_txouts spent_tx ! unat (txin_outindex txin)))
         (db_scripts db) = script # scripts"
      "check_inputs own otx txins
         (update_txout (TxOut_spent (Some (txin_id txin))
                          (tx_txouts spent_tx ! unat (txin_outindex txin))) db) st1
       = Inr (db', st')"
      "conflicting_txs st1 = conflicting" "sent_from_vault st1"
      "(case txout_spent (tx_txouts spent_tx ! unat (txin_outindex txin)) of
          None \<Rightarrow> Inr (conflicting_txs st)
        | Some conflict_txin \<Rightarrow>
            if conflict_txin \<in> set own then Inr (List.insert otx (conflicting_txs st))
            else (case TxIn_tx db conflict_txin of
                    Inl e \<Rightarrow> Inl e
                  | Inr t \<Rightarrow> Inr (List.insert (tx_id t) (conflicting_txs st)))) = Inr conflicting"
proof (cases "filter (\<lambda>t. tx_hash t = txin_outhash txin) (db_txs db)")
  case Nil
  with assms show ?thesis by (intro unknown) simp_all
next
  case (Cons spent_tx rest)
  let ?o = "tx_txouts spent_tx ! unat (txin_outindex txin)"
  from assms Cons have rng: "unat (txin_outindex txin) < length (tx_txouts spent_tx)"
    by (simp add: Let_def split: if_splits)
  from assms Cons rng obtain conflicting where
    c: "(case txout_spent ?o of
          None \<Rightarrow> Inr (conflicting_txs st)
        | Some conflict_txin \<Rightarrow>
            if conflict_txin \<in> set own then Inr (List.insert otx (conflicting_txs st))
            else (case TxIn_tx db conflict_txin of
                    Inl e \<Rightarrow> Inl e
                  | Inr t \<Rightarrow> Inr (List.insert (tx_id t) (conflicting_txs st)))) = Inr conflicting"
    by (simp add: Let_def split: sum.splits)
  show ?thesis
  proof (cases "filter (\<lambda>s. ss_txoutscript s = txout_script ?o) (db_scripts db)")
    case Nil
    with assms Cons rng c show ?thesis
      by (intro foreign [of spent_tx rest conflicting]) (simp_all add: Let_def)
  next
    case (Cons script scripts)
    note sc = Cons
    from assms \<open>filter (\<lambda>t. tx_hash t = txin_outhash txin) (db_txs db) = spent_tx # rest\<close> rng c sc
    obtain st1 where
      "check_inputs own otx txins (update_txout (TxOut_spent (Some (txin_id txin)) ?o) db) st1
         = Inr (db', st')" "conflicting_txs st1 = conflicting" "sent_from_vault st1"
      by (auto simp: Let_def split: option.splits sum.splits)
    with \<open>filter (\<lambda>t. tx_hash t = txin_outhash txin) (db_txs db) = spent_tx # rest\<close> rng c sc
    show ?thesis by (intro owned [of spent_tx rest script scripts st1 conflicting]) simp_all
  qed
qed


lemma persist_keys_frame [simp]:
  "db_txs (persist_keys ks db) = db_txs db"
  "db_scripts (persist_keys ks db) = db_scripts db"
  "db_next_script_id (persist_keys ks db) = db_next_script_id db"
  by (induction ks arbitrary: db) simp_all

lemma newSigningScripts_txs [simp]:
  "db_txs (snd (newSigningScripts cap account n bin db)) = db_txs db"
  by (induction n arbitrary: bin db) (simp_all add: Let_def split: prod.splits)

lemma tryUnlockAccountChainCodes_db [simp]:
  "v_db (fst (tryUnlockAccountChainCodes_unwrapped cap account v)) = v_db v"
  by (simp add: tryUnlockAccountChainCodes_unwrapped_def split: sum.splits prod.splits)

lemma refill_txs [simp]:
  "db_txs (v_db (fst (refillAccountBinPool_unwrapped cap bin v))) = db_txs (v_db v)"
proof (cases "load_account (v_db v) (ab_account bin)")
  case (Inl e)
  then show ?thesis by (simp add: refillAccountBinPool_unwrapped_def)
next
  case (Inr account)
  obtain v1 r where t: "tryUnlockAccountChainCodes_unwrapped cap account v = (v1, r)"
    by (cases "tryUnlockAccountChainCodes_unwrapped cap account v")
  have d: "v_db v1 = v_db v"
    using tryUnlockAccountChainCodes_db [of cap account v] t by simp
  show ?thesis
  proof (cases r)
    case (Inl e)
    with Inr t d show ?thesis by (simp add: refillAccountBinPool_unwrapped_def)
  next
    case (Inr u)
    obtain bin1 db1 where n: "newSigningScripts cap account
        (unat (acc_unused_pool_size account) - unat (ScriptCountView (v_db v1) (ab_id bin) UNUSED))
        bin (v_db v1) = (bin1, db1)"
      by (cases "newSigningScripts cap account
        (unat (acc_unused_pool_size account) - unat (ScriptCountView (v_db v1) (ab_id bin) UNUSED))
        bin (v_db v1)")
    have "db_txs db1 = db_txs (v_db v1)"
      using newSigningScripts_txs [of cap account _ bin "v_db v1"] n by (metis snd_conv)
    with Inr \<open>load_account (v_db v) (ab_account bin) = Inr account\<close> t d n show ?thesis
      by (simp add: refillAccountBinPool_unwrapped_def Let_def update_bin_def)
  qed
qed

lemma refill_caught_txs [simp]:
  "db_txs (v_db (fst (refill_caught cap bin v))) = db_txs (v_db v)"
proof -
  have "fst (refill_caught cap bin v) = fst (refillAccountBinPool_unwrapped cap bin v)"
    by (simp add: refill_caught_def split: prod.splits sum.splits error.splits)
  then show ?thesis by simp
qed

lemma refill_caught_txs':
  "refill_caught cap bin v = (v1, r) \<Longrightarrow> db_txs (v_db v1) = db_txs (v_db v)"
  using refill_caught_txs [of cap bin v] by simp

lemma TxOut_consistent_fields [simp]:
  "TxOut_consistent (x\<lparr>txout_signingscript := a\<rparr>) = TxOut_consistent x"
  "TxOut_consistent (x\<lparr>txout_sending_account := b\<rparr>) = TxOut_consistent x"
  "TxOut_consistent (x\<lparr>txout_id := c\<rparr>) = TxOut_consistent x"
  by (simp_all add: TxOut_consistent_def)

lemma mark_spent_consistent [simp]:
  "TxOut_consistent x \<Longrightarrow> TxOut_consistent (mark_spent_out_of_order db h x)"
  by (simp add: mark_spent_out_of_order_def split: list.splits)

lemma check_outputs_step:
  assumes "check_outputs cap h fv sa (txout # txouts) v st = (v', Inr (txouts1, st'))"
  shows "\<exists>v1 st1 txout1 r.
    check_outputs cap h fv sa txouts v1 st1 = (v', Inr (r, st')) \<and>
    txouts1 = txout1 # r \<and>
    db_txs (v_db v1) = db_txs (v_db v) \<and>
    (TxOut_consistent txout \<longrightarrow> TxOut_consistent txout1)"
proof (cases "filter (\<lambda>s. ss_txoutscript s = txout_script txout) (db_scripts (v_db v))")
  case Nil
  with assms obtain r where
    a: "check_outputs cap h fv sa txouts v (st\<lparr>output_total := output_total st + txout_value txout\<rparr>)
       = (v', Inr (r, st'))" and
    b: "txouts1 = (case sa of None \<Rightarrow> txout | Some a \<Rightarrow> txout\<lparr>txout_sending_account := Some a\<rparr>) # r"
    by (auto simp: Let_def split: prod.splits sum.splits)
  have "TxOut_consistent txout \<longrightarrow>
        TxOut_consistent (case sa of None \<Rightarrow> txout | Some a \<Rightarrow> txout\<lparr>txout_sending_account := Some a\<rparr>)"
    by (simp split: option.splits)
  with a b show ?thesis by blast
next
  case (Cons row rows)
  let ?st1 = "st\<lparr>output_total := output_total st + txout_value txout\<rparr>"
  let ?script = "load_script (scripts ?st1) row"
  let ?txout1 = "txout\<lparr>txout_signingscript := Some (ss_id ?script)\<rparr>"
  from assms Cons obtain v1 st3 r where
    a: "check_outputs cap h fv sa txouts v1 st3 = (v', Inr (r, st'))" and
    b: "txouts1 = mark_spent_out_of_order (v_db v1) h ?txout1 # r" and
    c: "v1 = v \<or> (\<exists>bin rr. refill_caught cap bin v = (v1, rr))"
    by (auto simp: Let_def split: prod.splits sum.splits script_status.splits) blast+
  from c have d: "db_txs (v_db v1) = db_txs (v_db v)" by (auto dest: refill_caught_txs')
  have "TxOut_consistent txout \<longrightarrow> TxOut_consistent (mark_spent_out_of_order (v_db v1) h ?txout1)"
    by simp
  with a b d show ?thesis by blast
qed

lemma check_outputs_frame:
  "check_outputs cap h fv sa txouts v st = (v', Inr (txouts1, st')) \<Longrightarrow>
     db_txs (v_db v') = db_txs (v_db v) \<and> length txouts1 = length txouts \<and>
     (list_all TxOut_consistent txouts \<longrightarrow> list_all TxOut_consistent txouts1)"
proof (induction txouts arbitrary: v st txouts1)
  case Nil
  then show ?case by simp
next
  case (Cons txout txouts)
  from check_outputs_step [OF Cons.prems] obtain v1 st1 txout1 r where
    s: "check_outputs cap h fv sa txouts v1 st1 = (v', Inr (r, st'))"
    "txouts1 = txout1 # r"
    "db_txs (v_db v1) = db_txs (v_db v)"
    "TxOut_consistent txout \<longrightarrow> TxOut_consistent txout1"
    by blast
  from Cons.IH [OF s(1)] s(2-4) show ?case by simp
qed


lemma fold_update_script_txs [simp]: "db_txs (fold update_script ss db) = db_txs db"
  by (induction ss arbitrary: db) (simp_all add: update_script_def)

















subsection \<open>Double spends\<close>

lemma Tx_without_txouts_fields:
  assumes "Tx_without_txouts t = Tx_without_txouts t'"
  shows "tx_hash t = tx_hash t'" "tx_id t = tx_id t'" "tx_txins t = tx_txins t'"
    "tx_status t = tx_status t'"
proof -
  have "tx_hash (Tx_without_txouts t) = tx_hash (Tx_without_txouts t')"
    "tx_id (Tx_without_txouts t) = tx_id (Tx_without_txouts t')"
    "tx_txins (Tx_without_txouts t) = tx_txins (Tx_without_txouts t')"
    "tx_status (Tx_without_txouts t) = tx_status (Tx_without_txouts t')"
    using assms by simp_all
  then show "tx_hash t = tx_hash t'" "tx_id t = tx_id t'" "tx_txins t = tx_txins t'"
    "tx_status t = tx_status t'"
    by (simp_all add: Tx_without_txouts_def)
qed

lemma list_all2_filter_rel:
  assumes "list_all2 R xs ys" and pq: "\<And>x y. R x y \<Longrightarrow> P x = Q y"
  shows "list_all2 R (filter P xs) (filter Q ys)"
  using assms(1)
proof (induction rule: list_all2_induct)
  case Nil
  show ?case by simp
next
  case (Cons x xs y ys)
  from pq [OF Cons.hyps(1)] Cons.hyps(1) Cons.IH show ?case by simp
qed

lemma list_all2_map_eq:
  assumes "list_all2 R xs ys" and fe: "\<And>x y. R x y \<Longrightarrow> f y = f x"
  shows "map f ys = map f xs"
  using assms(1)
proof (induction rule: list_all2_induct)
  case Nil
  show ?case by simp
next
  case (Cons x xs y ys)
  from fe [OF Cons.hyps(1)] Cons.IH show ?case by simp
qed

lemma links_refl: "links_extended own db db"
  by (simp add: links_extended_def list_all2_same)

lemma links_step:
  assumes l: "links_extended own db0 db" and i: "i \<in> set own"
  shows "links_extended own db0 (update_txout (TxOut_spent (Some i) x) db)"
proof -
  let ?Q = "\<lambda>x0 x. txout_spent x = txout_spent x0 \<or> (\<exists>i \<in> set own. txout_spent x = Some i)"
  let ?R = "\<lambda>t0 t. Tx_without_txouts t = Tx_without_txouts t0 \<and>
                  list_all2 ?Q (tx_txouts t0) (tx_txouts t)"
  define h where "h = (\<lambda>y::TxOut. if txout_id y = txout_id (TxOut_spent (Some i) x)
                            then TxOut_spent (Some i) x else y)"
  define g where "g = (\<lambda>t::Tx. t\<lparr>tx_txouts := map h (tx_txouts t)\<rparr>)"
  have q: "?Q x0 y \<Longrightarrow> ?Q x0 (h y)" for x0 y
    using i by (auto simp: TxOut_spent_def h_def)
  have inner: "list_all2 ?Q xs ys \<Longrightarrow> list_all2 ?Q xs (map h ys)" for xs ys
    unfolding list_all2_map2 by (erule list_all2_mono) (rule q)
  have row: "?R t0 (g t)" if r: "?R t0 t" for t0 t
  proof
    from r show "Tx_without_txouts (g t) = Tx_without_txouts t0"
      by (simp add: Tx_without_txouts_def g_def)
    have "tx_txouts (g t) = map h (tx_txouts t)" by (simp add: g_def)
    with inner [of "tx_txouts t0" "tx_txouts t"] r
    show "list_all2 ?Q (tx_txouts t0) (tx_txouts (g t))" by simp
  qed
  have e: "db_txs (update_txout (TxOut_spent (Some i) x) db) = map g (db_txs db)"
    by (simp add: update_txout_def g_def h_def)
  from l have "list_all2 ?R (db_txs db0) (db_txs db)"
    by (simp add: links_extended_def)
  then have "list_all2 (\<lambda>t0 t. ?R t0 (g t)) (db_txs db0) (db_txs db)"
    by (rule list_all2_mono) (rule row)
  then show ?thesis
    unfolding links_extended_def e list_all2_map2 .
qed

lemma links_filter_head:
  assumes l: "links_extended own db0 db"
    and p: "\<And>t t'. Tx_without_txouts t = Tx_without_txouts t' \<Longrightarrow> P t = P t'"
    and f: "filter P (db_txs db0) = t0 # r0"
  shows "\<exists>t r. filter P (db_txs db) = t # r \<and> Tx_without_txouts t = Tx_without_txouts t0 \<and>
     list_all2 (\<lambda>x0 x. txout_spent x = txout_spent x0 \<or> (\<exists>i \<in> set own. txout_spent x = Some i))
       (tx_txouts t0) (tx_txouts t)"
proof -
  let ?R = "\<lambda>t0 t. Tx_without_txouts t = Tx_without_txouts t0 \<and>
                  list_all2 (\<lambda>x0 x. txout_spent x = txout_spent x0 \<or>
                                     (\<exists>i \<in> set own. txout_spent x = Some i))
                    (tx_txouts t0) (tx_txouts t)"
  have "list_all2 ?R (filter P (db_txs db0)) (filter P (db_txs db))"
    using l unfolding links_extended_def
  proof (rule list_all2_filter_rel)
    fix x y assume "?R x y"
    then have "Tx_without_txouts y = Tx_without_txouts x" by simp
    from p [OF this] show "P x = P y" by simp
  qed
  with f show ?thesis by (auto simp: list_all2_Cons1)
qed

lemma links_skeleton:
  "links_extended own db0 db \<Longrightarrow>
   map Tx_without_txouts (db_txs db) = map Tx_without_txouts (db_txs db0)"
  unfolding links_extended_def by (erule list_all2_map_eq) simp

lemma conflicting_mono:
  assumes "(case spent of
      None \<Rightarrow> Inr cs
    | Some c \<Rightarrow>
        if c \<in> set own then Inr (List.insert otx cs)
        else (case TxIn_tx db c of
                Inl e \<Rightarrow> Inl e
              | Inr t \<Rightarrow> Inr (List.insert (tx_id t) cs))) = Inr conflicting"
  shows "set cs \<subseteq> set conflicting"
proof (cases spent)
  case None
  with assms show ?thesis by simp
next
  case (Some c)
  show ?thesis
  proof (cases "c \<in> set own")
    case True
    with assms Some have "conflicting = List.insert otx cs" by simp
    then show ?thesis by auto
  next
    case False
    show ?thesis
    proof (cases "TxIn_tx db c")
      case (Inl e)
      with assms Some False show ?thesis by simp
    next
      case (Inr t)
      with assms Some False have "conflicting = List.insert (tx_id t) cs" by simp
      then show ?thesis by auto
    qed
  qed
qed

lemma conflicting_hit:
  assumes c: "(case txout_spent x of
      None \<Rightarrow> Inr cs
    | Some c \<Rightarrow>
        if c \<in> set own then Inr (List.insert otx cs)
        else (case TxIn_tx db c of
                Inl e \<Rightarrow> Inl e
              | Inr t \<Rightarrow> Inr (List.insert (tx_id t) cs))) = Inr conflicting"
    and l: "links_extended own db0 db"
    and q: "txout_spent x = txout_spent x0 \<or> (\<exists>i \<in> set own. txout_spent x = Some i)"
    and s: "txout_spent x0 = Some c0"
    and t: "TxIn_tx db0 c0 = Inr T1"
  shows "tx_id T1 \<in> set conflicting \<or> otx \<in> set conflicting"
proof (cases "\<exists>i \<in> set own. txout_spent x = Some i")
  case True
  then obtain i where "i \<in> set own" "txout_spent x = Some i" by blast
  with c have "conflicting = List.insert otx cs" by simp
  then show ?thesis by simp
next
  case False
  with q s have x: "txout_spent x = Some c0" and n: "c0 \<notin> set own" by auto
  from t obtain r0 where
    f: "filter (\<lambda>t. c0 \<in> set (map txin_id (tx_txins t))) (db_txs db0) = T1 # r0"
    by (auto simp: TxIn_tx_def split: list.splits)
  have "\<exists>t r. filter (\<lambda>t. c0 \<in> set (map txin_id (tx_txins t))) (db_txs db) = t # r \<and>
      Tx_without_txouts t = Tx_without_txouts T1 \<and>
      list_all2 (\<lambda>x0 x. txout_spent x = txout_spent x0 \<or> (\<exists>i \<in> set own. txout_spent x = Some i))
        (tx_txouts T1) (tx_txouts t)"
    using l _ f
  proof (rule links_filter_head)
    fix t t' assume "Tx_without_txouts t = Tx_without_txouts t'"
    from Tx_without_txouts_fields(3) [OF this]
    show "(c0 \<in> set (map txin_id (tx_txins t))) = (c0 \<in> set (map txin_id (tx_txins t')))"
      by simp
  qed
  then obtain t r where
    "filter (\<lambda>t. c0 \<in> set (map txin_id (tx_txins t))) (db_txs db) = t # r"
    "Tx_without_txouts t = Tx_without_txouts T1" by blast
  then have "TxIn_tx db c0 = Inr t" "tx_id t = tx_id T1"
    using Tx_without_txouts_fields(2) [of t T1] by (simp_all add: TxIn_tx_def)
  with c x n have "conflicting = List.insert (tx_id T1) cs" by simp
  then show ?thesis by simp
qed

lemma check_inputs_conflicts:
  assumes "check_inputs own otx txins db st = Inr (db', st')"
    and "links_extended own db0 db"
    and "\<forall>txin \<in> set txins. txin_id txin \<in> set own"
  shows "links_extended own db0 db' \<and> set (conflicting_txs st) \<subseteq> set (conflicting_txs st') \<and>
    (\<forall>txin \<in> set txins. \<forall>O_tx rest c T1.
        filter (\<lambda>t. tx_hash t = txin_outhash txin) (db_txs db0) = O_tx # rest \<longrightarrow>
        txout_spent (tx_txouts O_tx ! unat (txin_outindex txin)) = Some c \<longrightarrow>
        TxIn_tx db0 c = Inr T1 \<longrightarrow>
        tx_id T1 \<in> set (conflicting_txs st') \<or> otx \<in> set (conflicting_txs st'))"
  using assms
proof (induction txins arbitrary: db st)
  case Nil
  then show ?case by simp
next
  case (Cons txin txins)
  let ?hit = "\<lambda>txin st'. \<forall>O_tx rest c T1.
        filter (\<lambda>t. tx_hash t = txin_outhash txin) (db_txs db0) = O_tx # rest \<longrightarrow>
        txout_spent (tx_txouts O_tx ! unat (txin_outindex txin)) = Some c \<longrightarrow>
        TxIn_tx db0 c = Inr T1 \<longrightarrow>
        tx_id T1 \<in> set (conflicting_txs st') \<or> otx \<in> set (conflicting_txs st')"
  from Cons.prems(3) have own: "txin_id txin \<in> set own"
    and rest: "\<forall>txin \<in> set txins. txin_id txin \<in> set own" by simp_all
  have hashp: "(tx_hash t = txin_outhash txin) = (tx_hash t' = txin_outhash txin)"
    if "Tx_without_txouts t = Tx_without_txouts t'" for t t'
    using Tx_without_txouts_fields(1) [OF that] by simp
  have known: "tx_id T1 \<in> set conflicting \<or> otx \<in> set conflicting"
    if f: "filter (\<lambda>t. tx_hash t = txin_outhash txin) (db_txs db) = spent_tx # rest'"
      and rng: "unat (txin_outindex txin) < length (tx_txouts spent_tx)"
      and c: "(case txout_spent (tx_txouts spent_tx ! unat (txin_outindex txin)) of
          None \<Rightarrow> Inr (conflicting_txs st)
        | Some conflict_txin \<Rightarrow>
            if conflict_txin \<in> set own then Inr (List.insert otx (conflicting_txs st))
            else (case TxIn_tx db conflict_txin of
                    Inl e \<Rightarrow> Inl e
                  | Inr t \<Rightarrow> Inr (List.insert (tx_id t) (conflicting_txs st)))) = Inr conflicting"
      and o: "filter (\<lambda>t. tx_hash t = txin_outhash txin) (db_txs db0) = O_tx # rest"
      and s: "txout_spent (tx_txouts O_tx ! unat (txin_outindex txin)) = Some c"
      and t: "TxIn_tx db0 c = Inr T1"
    for spent_tx rest' conflicting O_tx rest c T1
  proof -
    from links_filter_head [OF Cons.prems(2) hashp o] f
    have l2: "list_all2 (\<lambda>x0 x. txout_spent x = txout_spent x0 \<or> (\<exists>i \<in> set own. txout_spent x = Some i))
       (tx_txouts O_tx) (tx_txouts spent_tx)" by auto
    from list_all2_nthD2 [OF l2 rng]
    have q: "txout_spent (tx_txouts spent_tx ! unat (txin_outindex txin)) =
             txout_spent (tx_txouts O_tx ! unat (txin_outindex txin)) \<or>
          (\<exists>i \<in> set own. txout_spent (tx_txouts spent_tx ! unat (txin_outindex txin)) = Some i)" .
    from conflicting_hit [OF c Cons.prems(2) q s t] show ?thesis .
  qed
  from Cons.prems(1) show ?case
  proof (cases rule: check_inputs_step)
    case unknown
    from Cons.IH [OF unknown(2) Cons.prems(2) rest]
    have ih: "links_extended own db0 db'" "set (conflicting_txs st) \<subseteq> set (conflicting_txs st')"
      "\<forall>txin \<in> set txins. ?hit txin st'" by simp_all
    have "?hit txin st'"
    proof (intro allI impI)
      fix O_tx rest c T1
      assume o: "filter (\<lambda>t. tx_hash t = txin_outhash txin) (db_txs db0) = O_tx # rest"
      from links_filter_head [OF Cons.prems(2) hashp o] unknown(1)
      show "tx_id T1 \<in> set (conflicting_txs st') \<or> otx \<in> set (conflicting_txs st')" by simp
    qed
    with ih show ?thesis by simp
  next
    case (foreign spent_tx rest' conflicting)
    from Cons.IH [OF foreign(4) Cons.prems(2) rest]
    have ih: "links_extended own db0 db'" "set conflicting \<subseteq> set (conflicting_txs st')"
      "\<forall>txin \<in> set txins. ?hit txin st'" by simp_all
    from conflicting_mono [OF foreign(5)] ih(2)
    have m: "set (conflicting_txs st) \<subseteq> set (conflicting_txs st')" by blast
    have "?hit txin st'"
    proof (intro allI impI)
      fix O_tx rest c T1
      assume o: "filter (\<lambda>t. tx_hash t = txin_outhash txin) (db_txs db0) = O_tx # rest"
        and s: "txout_spent (tx_txouts O_tx ! unat (txin_outindex txin)) = Some c"
        and t: "TxIn_tx db0 c = Inr T1"
      from known [OF foreign(1) foreign(2) foreign(5) o s t] ih(2)
      show "tx_id T1 \<in> set (conflicting_txs st') \<or> otx \<in> set (conflicting_txs st')" by blast
    qed
    with ih m show ?thesis by simp
  next
    case (owned spent_tx rest' conflicting script scripts st1)
    from Cons.IH [OF owned(4) links_step [OF Cons.prems(2) own] rest] owned(5)
    have ih: "links_extended own db0 db'" "set conflicting \<subseteq> set (conflicting_txs st')"
      "\<forall>txin \<in> set txins. ?hit txin st'" by simp_all
    from conflicting_mono [OF owned(7)] ih(2)
    have m: "set (conflicting_txs st) \<subseteq> set (conflicting_txs st')" by blast
    have "?hit txin st'"
    proof (intro allI impI)
      fix O_tx rest c T1
      assume o: "filter (\<lambda>t. tx_hash t = txin_outhash txin) (db_txs db0) = O_tx # rest"
        and s: "txout_spent (tx_txouts O_tx ! unat (txin_outindex txin)) = Some c"
        and t: "TxIn_tx db0 c = Inr T1"
      from known [OF owned(1) owned(2) owned(7) o s t] ih(2)
      show "tx_id T1 \<in> set (conflicting_txs st') \<or> otx \<in> set (conflicting_txs st')" by blast
    qed
    with ih m show ?thesis by simp
  qed
qed

lemma update_tx_map_same:
  assumes d: "distinct (map tx_id (db_txs db))" and m: "t \<in> set (db_txs db)"
    and i: "tx_id t' = tx_id t"
  shows "db_txs (update_tx t' db) = map (\<lambda>r. if r = t then t' else r) (db_txs db)"
proof -
  from d have inj: "inj_on tx_id (set (db_txs db))" by (simp add: distinct_map)
  have "(tx_id r = tx_id t') = (r = t)" if "r \<in> set (db_txs db)" for r
    using inj_onD [OF inj _ that m] i by auto
  then show ?thesis by (simp add: update_tx_def cong: map_cong)
qed

lemma map_via_skeleton:
  assumes "map Tx_without_txouts xs = map Tx_without_txouts ys"
    and "\<And>t. F (Tx_without_txouts t) = F t"
  shows "map F xs = map F ys"
proof -
  have "map F xs = map F (map Tx_without_txouts xs)" by (simp add: assms(2))
  also have "\<dots> = map F (map Tx_without_txouts ys)" by (simp only: assms(1))
  also have "\<dots> = map F ys" by (simp add: assms(2))
  finally show ?thesis .
qed

lemma update_conflicting_effect:
  assumes "update_conflicting ids db = Inr db'" and "distinct (map tx_id (db_txs db))"
  shows "set ids \<subseteq> tx_id ` set (db_txs db) \<and>
     map (\<lambda>t. (tx_id t, tx_status t)) (db_txs db') =
     map (\<lambda>t. (tx_id t, if tx_id t \<in> set ids \<and> tx_status t \<noteq> CONFIRMED then CONFLICTING
                         else tx_status t)) (db_txs db)"
  using assms
proof (induction ids arbitrary: db)
  case Nil
  then show ?case by simp
next
  case (Cons i ids)
  from Cons.prems(1) obtain t ts where
    f: "filter (\<lambda>t. tx_id t = i) (db_txs db) = t # ts" and
    r: "update_conflicting ids
          (if tx_status t \<noteq> CONFIRMED then update_tx (Tx_updateStatus_to CONFLICTING t) db else db) = Inr db'"
    by (auto split: list.splits if_splits)
  from filter_Cons_props [OF f] have tin: "t \<in> set (db_txs db)" and ti: "tx_id t = i" by simp_all
  from Cons.prems(2) have inj: "inj_on tx_id (set (db_txs db))" by (simp add: distinct_map)
  have uniq: "r = t" if "r \<in> set (db_txs db)" "tx_id r = i" for r
    using inj_onD [OF inj _ that(1) tin] that(2) ti by simp
  show ?case
  proof (cases "tx_status t = CONFIRMED")
    case True
    with r have r': "update_conflicting ids db = Inr db'" by simp
    from Cons.IH [OF r' Cons.prems(2)]
    have ih: "set ids \<subseteq> tx_id ` set (db_txs db)"
      "map (\<lambda>t. (tx_id t, tx_status t)) (db_txs db') =
       map (\<lambda>t. (tx_id t, if tx_id t \<in> set ids \<and> tx_status t \<noteq> CONFIRMED then CONFLICTING
                         else tx_status t)) (db_txs db)" by simp_all
    have "map (\<lambda>t. (tx_id t, if tx_id t \<in> set ids \<and> tx_status t \<noteq> CONFIRMED then CONFLICTING
                         else tx_status t)) (db_txs db) =
          map (\<lambda>t. (tx_id t, if tx_id t \<in> set (i # ids) \<and> tx_status t \<noteq> CONFIRMED then CONFLICTING
                         else tx_status t)) (db_txs db)"
    proof (rule map_cong [OF refl])
      fix r assume "r \<in> set (db_txs db)"
      with uniq [of r] True
      show "(tx_id r, if tx_id r \<in> set ids \<and> tx_status r \<noteq> CONFIRMED then CONFLICTING
                         else tx_status r) =
            (tx_id r, if tx_id r \<in> set (i # ids) \<and> tx_status r \<noteq> CONFIRMED then CONFLICTING
                         else tx_status r)" by auto
    qed
    with ih tin ti show ?thesis by auto
  next
    case False
    let ?t' = "Tx_updateStatus_to CONFLICTING t"
    let ?db1 = "update_tx ?t' db"
    from False r have r': "update_conflicting ids ?db1 = Inr db'" by simp
    have e: "db_txs ?db1 = map (\<lambda>r. if r = t then ?t' else r) (db_txs db)"
      by (rule update_tx_map_same [OF Cons.prems(2) tin]) (simp add: Tx_updateStatus_to_def)
    have ids: "map tx_id (db_txs ?db1) = map tx_id (db_txs db)"
      unfolding e by (simp add: Tx_updateStatus_to_def cong: map_cong)
    with Cons.prems(2) have d1: "distinct (map tx_id (db_txs ?db1))" by simp
    from ids have img: "tx_id ` set (db_txs ?db1) = tx_id ` set (db_txs db)"
      by (metis set_map)
    from Cons.IH [OF r' d1]
    have ih: "set ids \<subseteq> tx_id ` set (db_txs ?db1)"
      "map (\<lambda>t. (tx_id t, tx_status t)) (db_txs db') =
       map (\<lambda>t. (tx_id t, if tx_id t \<in> set ids \<and> tx_status t \<noteq> CONFIRMED then CONFLICTING
                         else tx_status t)) (db_txs ?db1)" by simp_all
    have "map (\<lambda>t. (tx_id t, if tx_id t \<in> set ids \<and> tx_status t \<noteq> CONFIRMED then CONFLICTING
                         else tx_status t)) (db_txs ?db1) =
          map (\<lambda>t. (tx_id t, if tx_id t \<in> set (i # ids) \<and> tx_status t \<noteq> CONFIRMED then CONFLICTING
                         else tx_status t)) (db_txs db)"
      unfolding e map_map
    proof (rule map_cong [OF refl])
      fix r assume rin: "r \<in> set (db_txs db)"
      show "((\<lambda>t. (tx_id t, if tx_id t \<in> set ids \<and> tx_status t \<noteq> CONFIRMED then CONFLICTING
                         else tx_status t)) \<circ> (\<lambda>r. if r = t then ?t' else r)) r =
            (tx_id r, if tx_id r \<in> set (i # ids) \<and> tx_status r \<noteq> CONFIRMED then CONFLICTING
                         else tx_status r)"
      proof (cases "r = t")
        case True
        with False ti show ?thesis by (simp add: Tx_updateStatus_to_def)
      next
        case False
        with uniq [OF rin] have "tx_id r \<noteq> i" by blast
        with False show ?thesis by simp
      qed
    qed
    with ih img tin ti show ?thesis by auto
  qed
qed

lemma updateConfirmations_loop_statuses:
  assumes "updateConfirmations_loop r db c = Inr (db', c')" and "distinct (map tx_id (db_txs db))"
  shows "map (\<lambda>t. (tx_id t, tx_status t)) (db_txs db') = map (\<lambda>t. (tx_id t, tx_status t)) (db_txs db)"
  using assms
proof (induction r arbitrary: db c)
  case Nil
  then show ?case by simp
next
  case (Cons row r)
  obtain tid hid where row: "row = (tid, hid)" by (cases row)
  show ?case
  proof (cases "hid = 0")
    case True
    with Cons.prems row have "updateConfirmations_loop r db c = Inr (db', c')" by simp
    from Cons.IH [OF this Cons.prems(2)] show ?thesis .
  next
    case False
    from Cons.prems(1) row False obtain tx txs blockheader bhs where
      tx: "filter (\<lambda>t. tx_id t = tid) (db_txs db) = tx # txs" and
      bh: "filter (\<lambda>h. bh_id h = hid) (db_blockheaders db) = blockheader # bhs" and
      rec: "updateConfirmations_loop r
              (update_tx (Tx_blockheader (Some (bh_id blockheader)) tx) db) (c + 1) = Inr (db', c')"
      by (auto split: list.splits)
    let ?t = "Tx_blockheader (Some (bh_id blockheader)) tx"
    from filter_Cons_props [OF tx] have tin: "tx \<in> set (db_txs db)" by simp
    have e: "db_txs (update_tx ?t db) = map (\<lambda>r. if r = tx then ?t else r) (db_txs db)"
      by (rule update_tx_map_same [OF Cons.prems(2) tin]) (simp add: Tx_blockheader_def)
    have s: "map (\<lambda>t. (tx_id t, tx_status t)) (db_txs (update_tx ?t db)) =
             map (\<lambda>t. (tx_id t, tx_status t)) (db_txs db)"
      unfolding e by (simp add: Tx_blockheader_def cong: map_cong)
    then have "map fst (map (\<lambda>t. (tx_id t, tx_status t)) (db_txs (update_tx ?t db))) =
               map fst (map (\<lambda>t. (tx_id t, tx_status t)) (db_txs db))" by simp
    then have "map tx_id (db_txs (update_tx ?t db)) = map tx_id (db_txs db)"
      by (simp add: comp_def)
    with Cons.prems(2) have "distinct (map tx_id (db_txs (update_tx ?t db)))" by simp
    from Cons.IH [OF rec this] s show ?thesis by simp
  qed
qed

lemma Tx_assign_ids_txin:
  assumes "txin \<in> set (tx_txins T)"
  shows "\<exists>txin' \<in> set (tx_txins (Tx_assign_ids db T)).
           txin_outhash txin' = txin_outhash txin \<and> txin_outindex txin' = txin_outindex txin"
proof -
  from assms obtain k where k: "k < length (tx_txins T)" "tx_txins T ! k = txin"
    by (auto simp: in_set_conv_nth)
  then have "(db_next_txin_id db + k, txin) \<in> set (enumerate (db_next_txin_id db) (tx_txins T))"
    by (auto simp: in_set_enumerate_eq)
  then have "txin\<lparr>txin_id := db_next_txin_id db + k\<rparr> \<in> set (tx_txins (Tx_assign_ids db T))"
    by (force simp: Tx_assign_ids_def)
  then show ?thesis by (intro bexI [of _ "txin\<lparr>txin_id := db_next_txin_id db + k\<rparr>"]) simp_all
qed

lemma insertTx_Some:
  "insertTx cap tx v = (v', Inr (Some t)) \<Longrightarrow> insertTx_unwrapped cap tx v = (v', Inr (Some t))"
  by (cases "insertTx_unwrapped cap tx v")
     (auto simp: insertTx_def split: sum.splits option.splits)

lemma insertTx_new_Some:
  assumes r: "insertTx_new cap tx0 v = (v', Inr (Some t))"
  shows "\<exists>(db1::database) ins (v2::Vault) (db3::database) (tx3::Tx) (db4::database).
     check_inputs (map txin_id (tx_txins (Tx_assign_ids (v_db v) tx0)))
        (tx_id (Tx_assign_ids (v_db v) tx0)) (tx_txins (Tx_assign_ids (v_db v) tx0)) (v_db v)
        \<lparr>conflicting_txs = [], sent_from_vault = False, have_all_outpoints = True,
         input_total = 0, sending_account = None\<rparr> = Inr (db1, ins) \<and>
     db_txs (v_db v2) = db_txs db1 \<and>
     update_conflicting (conflicting_txs ins) (v_db v2) = Inr db3 \<and>
     tx_id tx3 = db_next_tx_id (v_db v) \<and>
     tx_status tx3 = (if conflicting_txs ins \<noteq> [] then CONFLICTING else tx_status tx0) \<and>
     db_txs db4 = db_txs db3 @ [tx3] \<and>
     t = tx3 \<and>
     (v_db v' = db4 \<or> (\<exists>count. updateConfirmations_unwrapped (Some tx3) db4 = Inr (v_db v', count)))"
proof -
  define tx where "tx = Tx_assign_ids (v_db v) tx0"
  note d = insertTx_new_def [of cap tx0 v, unfolded Let_def, folded tx_def]
  have txf: "tx_id tx = db_next_tx_id (v_db v)" "tx_status tx = tx_status tx0"
    by (simp_all add: tx_def Tx_assign_ids_def)
  have "\<exists>(db1::database) ins (v2::Vault) (db3::database) (tx3::Tx) (db4::database).
     check_inputs (map txin_id (tx_txins tx)) (tx_id tx) (tx_txins tx) (v_db v)
        \<lparr>conflicting_txs = [], sent_from_vault = False, have_all_outpoints = True,
         input_total = 0, sending_account = None\<rparr> = Inr (db1, ins) \<and>
     db_txs (v_db v2) = db_txs db1 \<and>
     update_conflicting (conflicting_txs ins) (v_db v2) = Inr db3 \<and>
     tx_id tx3 = db_next_tx_id (v_db v) \<and>
     tx_status tx3 = (if conflicting_txs ins \<noteq> [] then CONFLICTING else tx_status tx0) \<and>
     db_txs db4 = db_txs db3 @ [tx3] \<and>
     t = tx3 \<and>
     (v_db v' = db4 \<or> (\<exists>count. updateConfirmations_unwrapped (Some tx3) db4 = Inr (v_db v', count)))"
    (is ?goal)
  proof (cases "check_inputs (map txin_id (tx_txins tx)) (tx_id tx) (tx_txins tx) (v_db v)
                \<lparr>conflicting_txs = [], sent_from_vault = False, have_all_outpoints = True,
                 input_total = 0, sending_account = None\<rparr>")
    case (Inl e)
    with r show ?goal unfolding d by simp
  next
    case (Inr p)
    obtain db1 ins where p: "p = (db1, ins)" by (cases p)
    note ci = Inr [unfolded p]
    obtain v2 ro where
      co: "check_outputs cap (tx_hash tx) (sent_from_vault ins) (sending_account ins)
                     (tx_txouts tx) (v\<lparr>v_db := db1\<rparr>)
                     \<lparr>scripts = [], sent_to_vault = False, output_total = 0\<rparr> = (v2, ro)"
      by (cases "check_outputs cap (tx_hash tx) (sent_from_vault ins) (sending_account ins)
                     (tx_txouts tx) (v\<lparr>v_db := db1\<rparr>)
                     \<lparr>scripts = [], sent_to_vault = False, output_total = 0\<rparr>")
    show ?goal
    proof (cases ro)
      case (Inl e)
      with r ci co show ?goal unfolding d by simp
    next
      case (Inr q)
      obtain txouts1 outs where q: "q = (txouts1, outs)" by (cases q)
      note co' = co [unfolded Inr q]
      from check_outputs_frame [OF co']
      have f: "db_txs (v_db v2) = db_txs db1" by simp
      show ?goal
      proof (cases "update_conflicting (conflicting_txs ins) (v_db v2)")
        case (Inl e)
        with r ci co' show ?goal unfolding d by simp
      next
        case (Inr db3)
        let ?tx2 = "if conflicting_txs ins \<noteq> []
             then Tx_updateStatus_to CONFLICTING (tx\<lparr>tx_txouts := txouts1\<rparr>)
             else tx\<lparr>tx_txouts := txouts1\<rparr>"
        let ?tx3 = "if have_all_outpoints ins
             then ?tx2\<lparr>tx_fee := input_total ins - output_total outs\<rparr> else ?tx2"
        let ?db4 = "fold update_script (scripts outs) (persist_tx ?tx3 db3)"
        define tx3 where "tx3 = ?tx3"
        define db4 where "db4 = ?db4"
        have t3: "tx_id tx3 = db_next_tx_id (v_db v)"
          "tx_status tx3 = (if conflicting_txs ins \<noteq> [] then CONFLICTING else tx_status tx0)"
          using txf by (simp_all add: tx3_def Tx_updateStatus_to_def)
        have d4: "db_txs db4 = db_txs db3 @ [tx3]"
          by (simp add: db4_def tx3_def persist_tx_def)
        have "insertTx_new cap tx0 v = (if sent_from_vault ins \<or> sent_to_vault outs
                          then
                            (if tx_status_rank (tx_status ?tx3) \<ge> tx_status_rank SENT
                                then (case updateConfirmations_unwrapped (Some ?tx3) ?db4 of
                                        Inl e \<Rightarrow> (v2\<lparr>v_db := ?db4\<rparr>, Inl e)
                                      | Inr (db5, count) \<Rightarrow> (v2\<lparr>v_db := db5\<rparr>, Inr (Some ?tx3)))
                                else (v2\<lparr>v_db := ?db4\<rparr>, Inr (Some ?tx3)))
                          else (v2\<lparr>v_db := db3\<rparr>, Inr None))"
          by (simp only: d ci co' Inr sum.case prod.case)
        with r have e: "(if sent_from_vault ins \<or> sent_to_vault outs
                          then
                            (if tx_status_rank (tx_status tx3) \<ge> tx_status_rank SENT
                                then (case updateConfirmations_unwrapped (Some tx3) db4 of
                                        Inl e \<Rightarrow> (v2\<lparr>v_db := db4\<rparr>, Inl e)
                                      | Inr (db5, count) \<Rightarrow> (v2\<lparr>v_db := db5\<rparr>, Inr (Some tx3)))
                                else (v2\<lparr>v_db := db4\<rparr>, Inr (Some tx3)))
                          else (v2\<lparr>v_db := db3\<rparr>, Inr None)) = (v', Inr (Some t))"
          unfolding tx3_def db4_def by simp
        have fin: "t = tx3 \<and>
          (v_db v' = db4 \<or> (\<exists>count. updateConfirmations_unwrapped (Some tx3) db4 = Inr (v_db v', count)))"
        proof (cases "sent_from_vault ins \<or> sent_to_vault outs")
          case False
          with e show ?thesis by auto
        next
          case True
          note sv = True
          show ?thesis
          proof (cases "tx_status_rank (tx_status tx3) \<ge> tx_status_rank SENT")
            case False
            with e sv show ?thesis by auto
          next
            case True
            with e sv have e': "(case updateConfirmations_unwrapped (Some tx3) db4 of
                                        Inl e \<Rightarrow> (v2\<lparr>v_db := db4\<rparr>, Inl e)
                                      | Inr (db5, count) \<Rightarrow> (v2\<lparr>v_db := db5\<rparr>, Inr (Some tx3))) = (v', Inr (Some t))"
              by simp
            then show ?thesis
              by (cases "updateConfirmations_unwrapped (Some tx3) db4") auto
          qed
        qed
        from ci f Inr t3 d4 fin
        have "check_inputs (map txin_id (tx_txins tx)) (tx_id tx) (tx_txins tx) (v_db v)
                \<lparr>conflicting_txs = [], sent_from_vault = False, have_all_outpoints = True,
                 input_total = 0, sending_account = None\<rparr> = Inr (db1, ins) \<and>
             db_txs (v_db v2) = db_txs db1 \<and>
             update_conflicting (conflicting_txs ins) (v_db v2) = Inr db3 \<and>
             tx_id tx3 = db_next_tx_id (v_db v) \<and>
             tx_status tx3 = (if conflicting_txs ins \<noteq> [] then CONFLICTING else tx_status tx0) \<and>
             db_txs db4 = db_txs db3 @ [tx3] \<and>
             t = tx3 \<and>
             (v_db v' = db4 \<or>
              (\<exists>count. updateConfirmations_unwrapped (Some tx3) db4 = Inr (v_db v', count)))"
          by simp
        then show ?goal
          by blast
      qed
    qed
  qed
  then show ?thesis unfolding tx_def .
qed

lemma outpoint_of_Some:
  "(outpoint_of db txin = Some (R, x)) =
   (\<exists>rest. filter (\<lambda>t. tx_hash t = txin_outhash txin) (db_txs db) = R # rest \<and>
      unat (txin_outindex txin) < length (tx_txouts R) \<and>
      x = tx_txouts R ! unat (txin_outindex txin))"
  by (auto simp: outpoint_of_def split: list.splits)

lemma outpoint_of_mem:
  assumes "outpoint_of db txin = Some (R, x)"
  shows "R \<in> set (db_txs db)" "x \<in> set (tx_txouts R)" "tx_hash R = txin_outhash txin"
    "x \<in> set (db_txouts db)"
proof -
  from assms obtain rest where
    f: "filter (\<lambda>t. tx_hash t = txin_outhash txin) (db_txs db) = R # rest"
    and r: "unat (txin_outindex txin) < length (tx_txouts R)"
    and x: "x = tx_txouts R ! unat (txin_outindex txin)"
    unfolding outpoint_of_Some by blast
  from filter_Cons_props [OF f] show a: "R \<in> set (db_txs db)" and "tx_hash R = txin_outhash txin"
    by simp_all
  from r x show b: "x \<in> set (tx_txouts R)" by simp
  from a b show "x \<in> set (db_txouts db)" by (auto simp: db_txouts_def)
qed

lemma TxOut_unlinked_fields:
  assumes "TxOut_unlinked x = TxOut_unlinked y"
  shows "txout_id x = txout_id y" "txout_script x = txout_script y"
    "txout_txindex x = txout_txindex y" "txout_value x = txout_value y"
    "TxOut_spent s x = TxOut_spent s y"
proof -
  have "txout_id (TxOut_unlinked x) = txout_id (TxOut_unlinked y)"
    "txout_script (TxOut_unlinked x) = txout_script (TxOut_unlinked y)"
    "txout_txindex (TxOut_unlinked x) = txout_txindex (TxOut_unlinked y)"
    "txout_value (TxOut_unlinked x) = txout_value (TxOut_unlinked y)"
    using assms by simp_all
  then show "txout_id x = txout_id y" "txout_script x = txout_script y"
    "txout_txindex x = txout_txindex y" "txout_value x = txout_value y"
    by (simp_all add: TxOut_unlinked_def)
  have "TxOut_spent s x = TxOut_spent s (TxOut_unlinked x)"
    "TxOut_spent s y = TxOut_spent s (TxOut_unlinked y)"
    by (simp_all add: TxOut_spent_def TxOut_unlinked_def)
  with assms show "TxOut_spent s x = TxOut_spent s y" by simp
qed

lemma TxOut_unlinked_spent [simp]: "TxOut_unlinked (TxOut_spent s x) = TxOut_unlinked x"
  by (simp add: TxOut_spent_def TxOut_unlinked_def)

lemma marks_refl: "marks_added mk db db"
  by (simp add: marks_added_def list_all2_same)

lemma marks_trans:
  assumes a: "marks_added mk db0 db" and b: "marks_added mk db db'"
    and c: "\<And>t t' x. Tx_without_txouts t = Tx_without_txouts t' \<Longrightarrow> mk t x = mk t' x"
  shows "marks_added mk db0 db'"
proof -
  let ?Q = "\<lambda>t0 x0 x. x = x0 \<or> (TxOut_unlinked x = TxOut_unlinked x0 \<and> mk t0 x)"
  let ?R = "\<lambda>t0 t. Tx_without_txouts t = Tx_without_txouts t0 \<and>
                list_all2 (?Q t0) (tx_txouts t0) (tx_txouts t)"
  have q: "?Q t0 x0 x'" if "?Q t0 x0 x" "?Q t x x'" "Tx_without_txouts t = Tx_without_txouts t0"
    for t0 t x0 x x'
    using that c [OF that(3)] by auto
  have r: "?R t0 t'" if r1: "?R t0 t" and r2: "?R t t'" for t0 t t'
  proof
    from r1 r2 show "Tx_without_txouts t' = Tx_without_txouts t0" by simp
    from r1 have s: "Tx_without_txouts t = Tx_without_txouts t0" by simp
    from r1 have l1: "list_all2 (?Q t0) (tx_txouts t0) (tx_txouts t)" by simp
    from r2 have l2: "list_all2 (?Q t) (tx_txouts t) (tx_txouts t')" by simp
    show "list_all2 (?Q t0) (tx_txouts t0) (tx_txouts t')"
      using _ l1 l2
    proof (rule list_all2_trans)
      fix a b c assume "?Q t0 a b" "?Q t b c"
      then show "?Q t0 a c" using q [of b a t0 c t] s by blast
    qed
  qed
  from a b have l: "list_all2 ?R (db_txs db0) (db_txs db)" "list_all2 ?R (db_txs db) (db_txs db')"
    by (simp_all add: marks_added_def)
  have "list_all2 ?R (db_txs db0) (db_txs db')"
    using _ l
  proof (rule list_all2_trans)
    fix a b c assume "?R a b" "?R b c"
    then show "?R a c" by (rule r)
  qed
  then show ?thesis by (simp add: marks_added_def)
qed

lemma marks_outpoint:
  assumes l: "marks_added mk db0 db"
  shows "outpoint_of db0 txin = Some (R, x) \<Longrightarrow>
         \<exists>R' x'. outpoint_of db txin = Some (R', x') \<and>
            Tx_without_txouts R' = Tx_without_txouts R \<and>
            (x' = x \<or> (TxOut_unlinked x' = TxOut_unlinked x \<and> mk R x'))"
    and "outpoint_of db txin = Some (R', x') \<Longrightarrow>
         \<exists>R x. outpoint_of db0 txin = Some (R, x) \<and>
            Tx_without_txouts R' = Tx_without_txouts R \<and>
            (x' = x \<or> (TxOut_unlinked x' = TxOut_unlinked x \<and> mk R x'))"
    and "(outpoint_of db txin = None) = (outpoint_of db0 txin = None)"
proof -
  let ?Q = "\<lambda>t0 x0 x. x = x0 \<or> (TxOut_unlinked x = TxOut_unlinked x0 \<and> mk t0 x)"
  let ?R = "\<lambda>t0 t. Tx_without_txouts t = Tx_without_txouts t0 \<and>
                list_all2 (?Q t0) (tx_txouts t0) (tx_txouts t)"
  let ?P = "\<lambda>t. tx_hash t = txin_outhash txin"
  let ?k = "unat (txin_outindex txin)"
  have fl: "list_all2 ?R (filter ?P (db_txs db0)) (filter ?P (db_txs db))"
    using l unfolding marks_added_def
  proof (rule list_all2_filter_rel)
    fix a b assume "?R a b"
    then have "Tx_without_txouts b = Tx_without_txouts a" by simp
    from Tx_without_txouts_fields(1) [OF this] show "?P a = ?P b" by simp
  qed
  have fwd: "\<exists>R' x'. outpoint_of db txin = Some (R', x') \<and>
            Tx_without_txouts R' = Tx_without_txouts R \<and>
            (x' = x \<or> (TxOut_unlinked x' = TxOut_unlinked x \<and> mk R x'))"
    if o: "outpoint_of db0 txin = Some (R, x)" for R x
  proof -
    from o obtain rest where f: "filter ?P (db_txs db0) = R # rest"
      and r: "?k < length (tx_txouts R)" and x: "x = tx_txouts R ! ?k"
      unfolding outpoint_of_Some by blast
    from fl f obtain R' rest' where f': "filter ?P (db_txs db) = R' # rest'" and rr: "?R R R'"
      by (auto simp: list_all2_Cons1)
    from rr have len: "length (tx_txouts R') = length (tx_txouts R)"
      by (auto dest: list_all2_lengthD)
    from rr r have "?Q R (tx_txouts R ! ?k) (tx_txouts R' ! ?k)"
      by (auto dest: list_all2_nthD)
    with f' r len x rr show ?thesis
      unfolding outpoint_of_Some by auto
  qed
  have bwd: "\<exists>R x. outpoint_of db0 txin = Some (R, x) \<and>
            Tx_without_txouts R' = Tx_without_txouts R \<and>
            (x' = x \<or> (TxOut_unlinked x' = TxOut_unlinked x \<and> mk R x'))"
    if o: "outpoint_of db txin = Some (R', x')" for R' x'
  proof -
    from o obtain rest' where f': "filter ?P (db_txs db) = R' # rest'"
      and r: "?k < length (tx_txouts R')" and x: "x' = tx_txouts R' ! ?k"
      unfolding outpoint_of_Some by blast
    from fl f' obtain R rest where f: "filter ?P (db_txs db0) = R # rest" and rr: "?R R R'"
      by (auto simp: list_all2_Cons2)
    from rr have len: "length (tx_txouts R') = length (tx_txouts R)"
      by (auto dest: list_all2_lengthD)
    from rr r len have "?Q R (tx_txouts R ! ?k) (tx_txouts R' ! ?k)"
      by (auto dest: list_all2_nthD)
    with f r len x rr show ?thesis
      unfolding outpoint_of_Some by auto
  qed
  show "outpoint_of db0 txin = Some (R, x) \<Longrightarrow>
         \<exists>R' x'. outpoint_of db txin = Some (R', x') \<and>
            Tx_without_txouts R' = Tx_without_txouts R \<and>
            (x' = x \<or> (TxOut_unlinked x' = TxOut_unlinked x \<and> mk R x'))"
    by (rule fwd)
  show "outpoint_of db txin = Some (R', x') \<Longrightarrow>
         \<exists>R x. outpoint_of db0 txin = Some (R, x) \<and>
            Tx_without_txouts R' = Tx_without_txouts R \<and>
            (x' = x \<or> (TxOut_unlinked x' = TxOut_unlinked x \<and> mk R x'))"
    by (rule bwd)
  show "(outpoint_of db txin = None) = (outpoint_of db0 txin = None)"
  proof (cases "outpoint_of db0 txin")
    case None
    show ?thesis
    proof (cases "outpoint_of db txin")
      case (Some p)
      obtain R' x' where "p = (R', x')" by (cases p)
      with Some bwd [of R' x'] None show ?thesis by auto
    qed (simp add: None)
  next
    case (Some p)
    obtain R x where "p = (R, x)" by (cases p)
    with Some fwd [of R x] show ?thesis by auto
  qed
qed

lemma concat_member_inj:
  "distinct (concat (map f xs)) \<Longrightarrow> a \<in> set xs \<Longrightarrow> b \<in> set xs \<Longrightarrow>
   x \<in> set (f a) \<Longrightarrow> x \<in> set (f b) \<Longrightarrow> a = b"
  by (induction xs) auto

lemma txouts_inj:
  assumes "distinct (map txout_id (db_txouts db))"
    and "x \<in> set (db_txouts db)" "y \<in> set (db_txouts db)" "txout_id x = txout_id y"
  shows "x = y"
  using assms by (auto simp: distinct_map dest: inj_onD)

lemma update_txout_own:
  assumes D: "distinct (map txout_id (db_txouts db))" and o: "x \<in> set (db_txouts db)"
  shows "db_txs (update_txout (TxOut_spent s x) db) =
         map (\<lambda>t. t\<lparr>tx_txouts := map (\<lambda>y. if y = x then TxOut_spent s x else y) (tx_txouts t)\<rparr>)
           (db_txs db)"
proof -
  have "(txout_id y = txout_id (TxOut_spent s x)) = (y = x)"
    if "t \<in> set (db_txs db)" "y \<in> set (tx_txouts t)" for t y
  proof -
    from that have "y \<in> set (db_txouts db)" by (auto simp: db_txouts_def)
    from txouts_inj [OF D this o] show ?thesis by (auto simp: TxOut_spent_def)
  qed
  then show ?thesis
    by (simp add: update_txout_def cong: map_cong)
qed

lemma update_txout_ids [simp]:
  "map txout_id (db_txouts (update_txout (TxOut_spent s x) db)) = map txout_id (db_txouts db)"
proof -
  define h where "h = (\<lambda>y::TxOut. if txout_id y = txout_id (TxOut_spent s x) then TxOut_spent s x else y)"
  have hid: "txout_id (h y) = txout_id y" for y by (simp add: h_def)
  have "db_txouts (update_txout (TxOut_spent s x) db) = map h (db_txouts db)"
    by (simp add: update_txout_def db_txouts_def map_concat comp_def h_def)
  then show ?thesis by (simp add: hid)
qed

lemma marks_step:
  assumes D: "distinct (map txout_id (db_txouts db))"
    and R: "R \<in> set (db_txs db)" and x: "x \<in> set (tx_txouts R)"
    and m: "mk R (TxOut_spent s x)"
  shows "marks_added mk db (update_txout (TxOut_spent s x) db)"
proof -
  let ?Q = "\<lambda>t0 x0 x. x = x0 \<or> (TxOut_unlinked x = TxOut_unlinked x0 \<and> mk t0 x)"
  let ?R = "\<lambda>t0 t. Tx_without_txouts t = Tx_without_txouts t0 \<and>
                list_all2 (?Q t0) (tx_txouts t0) (tx_txouts t)"
  define h where "h = (\<lambda>y::TxOut. if y = x then TxOut_spent s x else y)"
  define g where "g = (\<lambda>t::Tx. t\<lparr>tx_txouts := map h (tx_txouts t)\<rparr>)"
  from R x have xin: "x \<in> set (db_txouts db)" by (auto simp: db_txouts_def)
  have e: "db_txs (update_txout (TxOut_spent s x) db) = map g (db_txs db)"
    using update_txout_own [OF D xin] by (simp add: g_def h_def)
  have only: "t = R" if "t \<in> set (db_txs db)" "x \<in> set (tx_txouts t)" for t
  proof -
    from D have "distinct (concat (map (\<lambda>t. map txout_id (tx_txouts t)) (db_txs db)))"
      by (simp add: db_txouts_def map_concat comp_def)
    from concat_member_inj [OF this that(1) R, of "txout_id x"] that(2) x show ?thesis by auto
  qed
  have row: "?R t (g t)" if t: "t \<in> set (db_txs db)" for t
  proof
    show "Tx_without_txouts (g t) = Tx_without_txouts t"
      by (simp add: g_def Tx_without_txouts_def)
    have "?Q t y (h y)" if "y \<in> set (tx_txouts t)" for y
    proof (cases "y = x")
      case True
      with that only [OF t] have "t = R" by simp
      with True m show ?thesis by (simp add: h_def)
    next
      case False
      then show ?thesis by (simp add: h_def)
    qed
    then have "list_all2 (?Q t) (tx_txouts t) (map h (tx_txouts t))"
      by (simp add: list_all2_map2 list_all2_same)
    then show "list_all2 (?Q t) (tx_txouts t) (tx_txouts (g t))" by (simp add: g_def)
  qed
  then have "list_all2 ?R (db_txs db) (map g (db_txs db))"
    by (simp add: list_all2_map2 list_all2_same)
  then show ?thesis unfolding marks_added_def e .
qed

lemma check_inputs_only_txs:
  "check_inputs own otx txins db st = Inr (db', st') \<Longrightarrow> db' = db\<lparr>db_txs := db_txs db'\<rparr>"
proof (induction txins arbitrary: db st)
  case Nil
  then show ?case by simp
next
  case (Cons txin txins)
  from Cons.prems show ?case
  proof (cases rule: check_inputs_step)
    case unknown
    from Cons.IH [OF unknown(2)] show ?thesis .
  next
    case (foreign spent_tx rest conflicting)
    from Cons.IH [OF foreign(4)] show ?thesis .
  next
    case (owned spent_tx rest conflicting script scripts st1)
    from Cons.IH [OF owned(4)] show ?thesis by (simp add: update_txout_def)
  qed
qed

lemma outpoint_of_map:
  assumes "db_txs db1 = map (\<lambda>t. t\<lparr>tx_txouts := map h (tx_txouts t)\<rparr>) (db_txs db)"
  shows "outpoint_of db1 txin =
         map_option (\<lambda>(R, x). (R\<lparr>tx_txouts := map h (tx_txouts R)\<rparr>, h x)) (outpoint_of db txin)"
proof -
  let ?g = "\<lambda>t::Tx. t\<lparr>tx_txouts := map h (tx_txouts t)\<rparr>"
  let ?P = "\<lambda>t. tx_hash t = txin_outhash txin"
  have "filter ?P (map ?g (db_txs db)) = map ?g (filter ?P (db_txs db))"
    by (simp add: filter_map comp_def)
  then show ?thesis
    unfolding outpoint_of_def assms
    by (cases "filter ?P (db_txs db)") simp_all
qed

lemma TxOut_owned_cong:
  "db_scripts db1 = db_scripts db \<Longrightarrow> TxOut_unlinked x1 = TxOut_unlinked x \<Longrightarrow>
   TxOut_owned db1 x1 = TxOut_owned db x"
  using TxOut_unlinked_fields(2) [of x1 x] by (simp add: TxOut_owned_def)

lemma check_inputs_outpoint:
  assumes "check_inputs own otx (txin # txins) db st = Inr (db', st')"
  obtains
    (unknown) "outpoint_of db txin = None"
      "check_inputs own otx txins db (st\<lparr>have_all_outpoints := False\<rparr>) = Inr (db', st')"
  | (foreign) R x st1 where
      "outpoint_of db txin = Some (R, x)" "\<not> TxOut_owned db x"
      "check_inputs own otx txins db st1 = Inr (db', st')"
  | (owned) R x st1 where
      "outpoint_of db txin = Some (R, x)" "TxOut_owned db x"
      "check_inputs own otx txins (update_txout (TxOut_spent (Some (txin_id txin)) x) db) st1
         = Inr (db', st')"
  using assms
proof (cases rule: check_inputs_step)
  case unknown
  then show ?thesis by (intro that(1)) (simp_all add: outpoint_of_def)
next
  case (foreign spent_tx rest conflicting)
  then show ?thesis
    by (intro that(2) [of spent_tx "tx_txouts spent_tx ! unat (txin_outindex txin)"])
       (simp_all add: outpoint_of_def TxOut_owned_def)
next
  case (owned spent_tx rest conflicting script scripts st1)
  then show ?thesis
    by (intro that(3) [of spent_tx "tx_txouts spent_tx ! unat (txin_outindex txin)"])
       (simp_all add: outpoint_of_def TxOut_owned_def)
qed

lemma check_inputs_marks:
  assumes cong: "\<And>t t' x. Tx_without_txouts t = Tx_without_txouts t' \<Longrightarrow> mk t x = mk t' x"
  shows "check_inputs own otx txins db st = Inr (db', st') \<Longrightarrow>
     distinct (map txout_id (db_txouts db)) \<Longrightarrow>
     (\<And>txin R x. txin \<in> set txins \<Longrightarrow> outpoint_of db txin = Some (R, x) \<Longrightarrow>
         mk R (TxOut_spent (Some (txin_id txin)) x)) \<Longrightarrow>
     marks_added mk db db' \<and>
     (\<forall>txin \<in> set txins. \<forall>R x. outpoint_of db txin = Some (R, x) \<longrightarrow> TxOut_owned db x \<longrightarrow>
        (\<exists>R' x'. outpoint_of db' txin = Some (R', x') \<and>
            TxOut_unlinked x' = TxOut_unlinked x \<and> mk R x'))"
proof (induction txins arbitrary: db st)
  case Nil
  then show ?case by (simp add: marks_refl)
next
  case (Cons txin txins)
  note D = Cons.prems(2)
  have step_tl: "\<And>t R x. t \<in> set txins \<Longrightarrow> outpoint_of db t = Some (R, x) \<Longrightarrow>
         mk R (TxOut_spent (Some (txin_id t)) x)"
    using Cons.prems(3) by simp
  from Cons.prems(1) show ?case
  proof (cases rule: check_inputs_outpoint)
    case unknown
    from Cons.IH [OF unknown(2) D step_tl] unknown(1) show ?thesis by auto
  next
    case (foreign R x st1)
    from Cons.IH [OF foreign(3) D step_tl] foreign(1) foreign(2) show ?thesis by auto
  next
    case (owned R x st1)
    let ?y = "TxOut_spent (Some (txin_id txin)) x"
    let ?db1 = "update_txout ?y db"
    note mem = outpoint_of_mem [OF owned(1)]
    have m: "mk R ?y" using Cons.prems(3) [OF _ owned(1)] by simp
    have S1: "marks_added mk db ?db1"
      by (rule marks_step [where mk = mk and R = R, OF D mem(1) mem(2) m])
    have D1: "distinct (map txout_id (db_txouts ?db1))" using D by simp
    have sc: "db_scripts ?db1 = db_scripts db" by (simp add: update_txout_def)
    have step1: "mk R1 (TxOut_spent (Some (txin_id t)) x1)"
      if t: "t \<in> set txins" and o: "outpoint_of ?db1 t = Some (R1, x1)" for t R1 x1
    proof -
      from marks_outpoint(2) [OF S1 o] obtain R0 x0 where
        o0: "outpoint_of db t = Some (R0, x0)" and s: "Tx_without_txouts R1 = Tx_without_txouts R0"
        and u: "x1 = x0 \<or> TxOut_unlinked x1 = TxOut_unlinked x0" by blast
      from u have "TxOut_spent (Some (txin_id t)) x1 = TxOut_spent (Some (txin_id t)) x0"
        using TxOut_unlinked_fields(5) [of x1 x0] by auto
      with step_tl [OF t o0] cong [OF s] show ?thesis by simp
    qed
    from Cons.IH [OF owned(3) D1 step1]
    have M1: "marks_added mk ?db1 db'"
      and L1: "\<And>t R1 x1. t \<in> set txins \<Longrightarrow> outpoint_of ?db1 t = Some (R1, x1) \<Longrightarrow>
          TxOut_owned ?db1 x1 \<Longrightarrow>
          \<exists>R' x'. outpoint_of db' t = Some (R', x') \<and>
            TxOut_unlinked x' = TxOut_unlinked x1 \<and> mk R1 x'"
      by blast+
    have c1: "marks_added mk db db'" by (rule marks_trans [OF S1 M1 cong])
    have c2: "\<exists>R' x'. outpoint_of db' t = Some (R', x') \<and>
            TxOut_unlinked x' = TxOut_unlinked x0 \<and> mk R0 x'"
      if t: "t \<in> set (txin # txins)" and o0: "outpoint_of db t = Some (R0, x0)"
        and ow: "TxOut_owned db x0" for t R0 x0
    proof (cases "t \<in> set txins")
      case True
      from marks_outpoint(1) [OF S1 o0] obtain R1 x1 where
        o1: "outpoint_of ?db1 t = Some (R1, x1)" and s: "Tx_without_txouts R1 = Tx_without_txouts R0"
        and u: "x1 = x0 \<or> TxOut_unlinked x1 = TxOut_unlinked x0" by blast
      from u have u': "TxOut_unlinked x1 = TxOut_unlinked x0" by auto
      from TxOut_owned_cong [OF sc u'] ow have "TxOut_owned ?db1 x1" by simp
      from L1 [OF True o1 this] obtain R' x' where
        "outpoint_of db' t = Some (R', x')" "TxOut_unlinked x' = TxOut_unlinked x1" "mk R1 x'"
        by blast
      with u' cong [OF s] show ?thesis by auto
    next
      case False
      with t have e: "t = txin" by simp
      with o0 owned(1) have e0: "R0 = R" "x0 = x" by simp_all
      from mem(4) have "db_txs ?db1 =
           map (\<lambda>t. t\<lparr>tx_txouts := map (\<lambda>y. if y = x then ?y else y) (tx_txouts t)\<rparr>) (db_txs db)"
        by (rule update_txout_own [OF D])
      from outpoint_of_map [OF this, of txin] owned(1)
      have o1: "outpoint_of ?db1 txin =
          Some (R\<lparr>tx_txouts := map (\<lambda>y. if y = x then ?y else y) (tx_txouts R)\<rparr>, ?y)"
        by simp
      let ?R1 = "R\<lparr>tx_txouts := map (\<lambda>y. if y = x then ?y else y) (tx_txouts R)\<rparr>"
      have s: "Tx_without_txouts ?R1 = Tx_without_txouts R"
        by (simp add: Tx_without_txouts_def)
      from marks_outpoint(1) [OF M1 o1] obtain R' x' where
        o': "outpoint_of db' txin = Some (R', x')"
        and u: "x' = ?y \<or> (TxOut_unlinked x' = TxOut_unlinked ?y \<and> mk ?R1 x')" by blast
      from u m cong [OF s] have "TxOut_unlinked x' = TxOut_unlinked x \<and> mk R x'"
        by auto
      with o' e e0 show ?thesis by auto
    qed
    from c1 c2 show ?thesis by blast
  qed
qed

lemma tx_tables_fields:
  assumes "tx_tables db' = tx_tables db"
  shows "db_txs db' = db_txs db" "db_next_tx_id db' = db_next_tx_id db"
    "db_next_txin_id db' = db_next_txin_id db" "db_next_txout_id db' = db_next_txout_id db"
    "db_txins db' = db_txins db" "db_txouts db' = db_txouts db"
  using assms by (simp_all add: tx_tables_def db_txins_def db_txouts_def)

lemma tx_tables_updates [simp]:
  "tx_tables (db\<lparr>db_keys := a\<rparr>) = tx_tables db"
  "tx_tables (db\<lparr>db_next_key_id := b\<rparr>) = tx_tables db"
  "tx_tables (db\<lparr>db_scripts := c\<rparr>) = tx_tables db"
  "tx_tables (db\<lparr>db_next_script_id := d\<rparr>) = tx_tables db"
  "tx_tables (db\<lparr>db_bins := e\<rparr>) = tx_tables db"
  "tx_tables (db\<lparr>db_merkleblocks := f\<rparr>) = tx_tables db"
  "tx_tables (db\<lparr>db_blockheaders := g\<rparr>) = tx_tables db"
  by (simp_all add: tx_tables_def)

lemma tx_tables_persist_keys [simp]: "tx_tables (persist_keys ks db) = tx_tables db"
  by (induction ks arbitrary: db) simp_all

lemma tx_tables_newSigningScripts [simp]:
  "tx_tables (snd (newSigningScripts cap account n bin db)) = tx_tables db"
  by (induction n arbitrary: bin db) (simp_all add: Let_def split: prod.splits)

lemma tx_tables_update_script [simp]: "tx_tables (update_script s db) = tx_tables db"
  by (simp add: update_script_def)

lemma tx_tables_update_bin [simp]: "tx_tables (update_bin b db) = tx_tables db"
  by (simp add: update_bin_def)

lemma tx_tables_fold_update_script [simp]: "tx_tables (fold update_script ss db) = tx_tables db"
  by (induction ss arbitrary: db) simp_all

lemma tx_tables_refill [simp]:
  "tx_tables (v_db (fst (refillAccountBinPool_unwrapped cap bin v))) = tx_tables (v_db v)"
proof (cases "load_account (v_db v) (ab_account bin)")
  case (Inl e)
  then show ?thesis by (simp add: refillAccountBinPool_unwrapped_def)
next
  case (Inr account)
  obtain v1 r where t: "tryUnlockAccountChainCodes_unwrapped cap account v = (v1, r)"
    by (cases "tryUnlockAccountChainCodes_unwrapped cap account v")
  have d: "v_db v1 = v_db v"
    using tryUnlockAccountChainCodes_db [of cap account v] t by simp
  show ?thesis
  proof (cases r)
    case (Inl e)
    with Inr t d show ?thesis by (simp add: refillAccountBinPool_unwrapped_def)
  next
    case (Inr u)
    obtain bin1 db1 where n: "newSigningScripts cap account
        (unat (acc_unused_pool_size account) - unat (ScriptCountView (v_db v1) (ab_id bin) UNUSED))
        bin (v_db v1) = (bin1, db1)"
      by (cases "newSigningScripts cap account
        (unat (acc_unused_pool_size account) - unat (ScriptCountView (v_db v1) (ab_id bin) UNUSED))
        bin (v_db v1)")
    have "tx_tables db1 = tx_tables (v_db v1)"
      using tx_tables_newSigningScripts [of cap account _ bin "v_db v1"] n by (metis snd_conv)
    with Inr \<open>load_account (v_db v) (ab_account bin) = Inr account\<close> t d n show ?thesis
      by (simp add: refillAccountBinPool_unwrapped_def Let_def)
  qed
qed

lemma tx_tables_refill_caught:
  "refill_caught cap bin v = (v1, r) \<Longrightarrow> tx_tables (v_db v1) = tx_tables (v_db v)"
proof -
  have "fst (refill_caught cap bin v) = fst (refillAccountBinPool_unwrapped cap bin v)"
    by (simp add: refill_caught_def split: prod.splits sum.splits error.splits)
  then show "refill_caught cap bin v = (v1, r) \<Longrightarrow> tx_tables (v_db v1) = tx_tables (v_db v)"
    using tx_tables_refill [of cap bin v] by simp
qed

lemma mark_spent_arrives:
  "TxOut_arrives (db_txins db) h x (mark_spent_out_of_order db h (x\<lparr>txout_signingscript := s\<rparr>))"
proof (cases "filter (\<lambda>i. txin_outhash i = h \<and> txin_outindex i = txout_txindex x) (db_txins db)")
  case Nil
  then show ?thesis by (simp add: mark_spent_out_of_order_def TxOut_arrives_def)
next
  case (Cons a r)
  from filter_Cons_props [OF Cons] have "a \<in> set (db_txins db)" "txin_outhash a = h"
    "txin_outindex a = txout_txindex x" by simp_all
  with Cons show ?thesis
    by (auto simp: mark_spent_out_of_order_def TxOut_arrives_def TxOut_spent_def)
qed

lemma check_outputs_step_arrives:
  assumes "check_outputs cap h fv sa (txout # txouts) v st = (v', Inr (txouts1, st'))"
  shows "\<exists>v1 st1 txout1 r.
    check_outputs cap h fv sa txouts v1 st1 = (v', Inr (r, st')) \<and>
    txouts1 = txout1 # r \<and>
    tx_tables (v_db v1) = tx_tables (v_db v) \<and>
    TxOut_arrives (db_txins (v_db v)) h txout txout1"
proof (cases "filter (\<lambda>s. ss_txoutscript s = txout_script txout) (db_scripts (v_db v))")
  case Nil
  with assms obtain r where
    a: "check_outputs cap h fv sa txouts v (st\<lparr>output_total := output_total st + txout_value txout\<rparr>)
       = (v', Inr (r, st'))" and
    b: "txouts1 = (case sa of None \<Rightarrow> txout | Some a \<Rightarrow> txout\<lparr>txout_sending_account := Some a\<rparr>) # r"
    by (auto simp: Let_def split: prod.splits sum.splits)
  have "TxOut_arrives (db_txins (v_db v)) h txout
          (case sa of None \<Rightarrow> txout | Some a \<Rightarrow> txout\<lparr>txout_sending_account := Some a\<rparr>)"
    by (simp add: TxOut_arrives_def split: option.splits)
  with a b show ?thesis by blast
next
  case (Cons row rows)
  let ?st1 = "st\<lparr>output_total := output_total st + txout_value txout\<rparr>"
  let ?script = "load_script (scripts ?st1) row"
  let ?txout1 = "txout\<lparr>txout_signingscript := Some (ss_id ?script)\<rparr>"
  from assms Cons obtain v1 st3 r where
    a: "check_outputs cap h fv sa txouts v1 st3 = (v', Inr (r, st'))" and
    b: "txouts1 = mark_spent_out_of_order (v_db v1) h ?txout1 # r" and
    c: "v1 = v \<or> (\<exists>bin rr. refill_caught cap bin v = (v1, rr))"
    by (auto simp: Let_def split: prod.splits sum.splits script_status.splits) blast+
  from c have d: "tx_tables (v_db v1) = tx_tables (v_db v)"
    by (auto dest: tx_tables_refill_caught)
  from mark_spent_arrives [of "v_db v1" h txout "Some (ss_id ?script)"]
  have "TxOut_arrives (db_txins (v_db v)) h txout (mark_spent_out_of_order (v_db v1) h ?txout1)"
    unfolding tx_tables_fields(5) [OF d] .
  with a b d show ?thesis by blast
qed

lemma check_outputs_arrives:
  "check_outputs cap h fv sa txouts v st = (v', Inr (txouts1, st')) \<Longrightarrow>
     tx_tables (v_db v') = tx_tables (v_db v) \<and>
     list_all2 (TxOut_arrives (db_txins (v_db v)) h) txouts txouts1"
proof (induction txouts arbitrary: v st txouts1)
  case Nil
  then show ?case by simp
next
  case (Cons txout txouts)
  from check_outputs_step_arrives [OF Cons.prems] obtain v1 st1 txout1 r where
    s: "check_outputs cap h fv sa txouts v1 st1 = (v', Inr (r, st'))"
    "txouts1 = txout1 # r"
    "tx_tables (v_db v1) = tx_tables (v_db v)"
    "TxOut_arrives (db_txins (v_db v)) h txout txout1"
    by blast
  from Cons.IH [OF s(1)] s(2-4) tx_tables_fields(5) [OF s(3)] show ?case by simp
qed

lemma Tx_links_fields:
  assumes "Tx_links t = Tx_links t'"
  shows "tx_id t = tx_id t'" "tx_hash t = tx_hash t'" "tx_txins t = tx_txins t'"
    "tx_txouts t = tx_txouts t'"
  using assms by (simp_all add: Tx_links_def)

lemma map_via_links:
  assumes "map Tx_links xs = map Tx_links ys"
    and "\<And>t. F t = G (Tx_links t)"
  shows "map F xs = map F ys"
proof -
  have "map F xs = map G (map Tx_links xs)" by (simp add: assms(2))
  also have "\<dots> = map G (map Tx_links ys)" by (simp only: assms(1))
  also have "\<dots> = map F ys" by (simp add: assms(2))
  finally show ?thesis .
qed

lemma links_ids:
  assumes "map Tx_links xs = map Tx_links ys"
  shows "map tx_id xs = map tx_id ys" "map tx_hash xs = map tx_hash ys"
    "map tx_txins xs = map tx_txins ys" "map tx_txouts xs = map tx_txouts ys"
proof -
  show "map tx_id xs = map tx_id ys"
    by (rule map_via_links [OF assms, of _ fst]) (simp add: Tx_links_def)
  show "map tx_hash xs = map tx_hash ys"
    by (rule map_via_links [OF assms, of _ "\<lambda>p. fst (snd p)"]) (simp add: Tx_links_def)
  show "map tx_txins xs = map tx_txins ys"
    by (rule map_via_links [OF assms, of _ "\<lambda>p. fst (snd (snd p))"]) (simp add: Tx_links_def)
  show "map tx_txouts xs = map tx_txouts ys"
    by (rule map_via_links [OF assms, of _ "\<lambda>p. snd (snd (snd p))"]) (simp add: Tx_links_def)
qed

lemma update_tx_links:
  assumes d: "distinct (map tx_id (db_txs db))" and m: "t \<in> set (db_txs db)"
    and l: "Tx_links t' = Tx_links t"
  shows "map Tx_links (db_txs (update_tx t' db)) = map Tx_links (db_txs db)"
proof -
  from l have i: "tx_id t' = tx_id t" by (simp add: Tx_links_def)
  have "map Tx_links (map (\<lambda>r. if r = t then t' else r) (db_txs db)) = map Tx_links (db_txs db)"
    unfolding map_map
  proof (rule map_cong [OF refl])
    fix r show "(Tx_links \<circ> (\<lambda>r. if r = t then t' else r)) r = Tx_links r"
      using l by simp
  qed
  then show ?thesis unfolding update_tx_map_same [OF d m i] .
qed

lemma tx_tables_links:
  "tx_tables db' = tx_tables db \<Longrightarrow> map Tx_links (db_txs db') = map Tx_links (db_txs db)"
  by (simp add: tx_tables_def)

lemma update_conflicting_links:
  assumes "update_conflicting ids db = Inr db'" and "distinct (map tx_id (db_txs db))"
  shows "map Tx_links (db_txs db') = map Tx_links (db_txs db) \<and>
    db'\<lparr>db_txs := []\<rparr> = db\<lparr>db_txs := []\<rparr>"
  using assms
proof (induction ids arbitrary: db)
  case Nil
  then show ?case by simp
next
  case (Cons i ids)
  from Cons.prems(1) obtain t ts where
    f: "filter (\<lambda>t. tx_id t = i) (db_txs db) = t # ts" and
    r: "update_conflicting ids
          (if tx_status t \<noteq> CONFIRMED then update_tx (Tx_updateStatus_to CONFLICTING t) db else db) = Inr db'"
    by (auto split: list.splits if_splits)
  from filter_Cons_props [OF f] have tin: "t \<in> set (db_txs db)" by simp
  let ?db1 = "if tx_status t \<noteq> CONFIRMED then update_tx (Tx_updateStatus_to CONFLICTING t) db else db"
  have l: "map Tx_links (db_txs ?db1) = map Tx_links (db_txs db)"
    using update_tx_links [OF Cons.prems(2) tin, of "Tx_updateStatus_to CONFLICTING t"]
    by (simp add: Tx_links_def Tx_updateStatus_to_def)
  have o: "?db1\<lparr>db_txs := []\<rparr> = db\<lparr>db_txs := []\<rparr>" by (simp add: update_tx_def)
  from links_ids(1) [OF l] Cons.prems(2) have d1: "distinct (map tx_id (db_txs ?db1))" by simp
  from Cons.IH [OF r d1] have ih: "map Tx_links (db_txs db') = map Tx_links (db_txs ?db1)"
    "db'\<lparr>db_txs := []\<rparr> = ?db1\<lparr>db_txs := []\<rparr>" by simp_all
  from ih(1) l have "map Tx_links (db_txs db') = map Tx_links (db_txs db)" by simp
  with ih(2) o show ?case by simp
qed

lemma updateConfirmations_loop_Tx_links:
  assumes "updateConfirmations_loop r db c = Inr (db', c')" and "distinct (map tx_id (db_txs db))"
  shows "map Tx_links (db_txs db') = map Tx_links (db_txs db) \<and>
    db'\<lparr>db_txs := []\<rparr> = db\<lparr>db_txs := []\<rparr>"
  using assms
proof (induction r arbitrary: db c)
  case Nil
  then show ?case by simp
next
  case (Cons row r)
  obtain tid hid where row: "row = (tid, hid)" by (cases row)
  show ?case
  proof (cases "hid = 0")
    case True
    with Cons.prems row have "updateConfirmations_loop r db c = Inr (db', c')" by simp
    from Cons.IH [OF this Cons.prems(2)] show ?thesis .
  next
    case False
    from Cons.prems(1) row False obtain tx txs blockheader bhs where
      tx: "filter (\<lambda>t. tx_id t = tid) (db_txs db) = tx # txs" and
      bh: "filter (\<lambda>h. bh_id h = hid) (db_blockheaders db) = blockheader # bhs" and
      rec: "updateConfirmations_loop r
              (update_tx (Tx_blockheader (Some (bh_id blockheader)) tx) db) (c + 1) = Inr (db', c')"
      by (auto split: list.splits)
    let ?t = "Tx_blockheader (Some (bh_id blockheader)) tx"
    let ?db1 = "update_tx ?t db"
    from filter_Cons_props [OF tx] have tin: "tx \<in> set (db_txs db)" by simp
    have l: "map Tx_links (db_txs ?db1) = map Tx_links (db_txs db)"
      by (rule update_tx_links [OF Cons.prems(2) tin]) (simp add: Tx_links_def Tx_blockheader_def)
    have o: "?db1\<lparr>db_txs := []\<rparr> = db\<lparr>db_txs := []\<rparr>" by (simp add: update_tx_def)
    from links_ids(1) [OF l] Cons.prems(2) have d1: "distinct (map tx_id (db_txs ?db1))" by simp
    from Cons.IH [OF rec d1] have ih: "map Tx_links (db_txs db') = map Tx_links (db_txs ?db1)"
      "db'\<lparr>db_txs := []\<rparr> = ?db1\<lparr>db_txs := []\<rparr>" by simp_all
    from ih(1) l have "map Tx_links (db_txs db') = map Tx_links (db_txs db)" by simp
    with ih(2) o show ?thesis by simp
  qed
qed

lemma only_txs_counters:
  assumes "db'\<lparr>db_txs := []\<rparr> = db\<lparr>db_txs := []\<rparr>"
  shows "db_next_tx_id db' = db_next_tx_id db" "db_next_txin_id db' = db_next_txin_id db"
    "db_next_txout_id db' = db_next_txout_id db" "db_scripts db' = db_scripts db"
proof -
  have "db_next_tx_id (db'\<lparr>db_txs := []\<rparr>) = db_next_tx_id (db\<lparr>db_txs := []\<rparr>)"
    "db_next_txin_id (db'\<lparr>db_txs := []\<rparr>) = db_next_txin_id (db\<lparr>db_txs := []\<rparr>)"
    "db_next_txout_id (db'\<lparr>db_txs := []\<rparr>) = db_next_txout_id (db\<lparr>db_txs := []\<rparr>)"
    "db_scripts (db'\<lparr>db_txs := []\<rparr>) = db_scripts (db\<lparr>db_txs := []\<rparr>)"
    by (simp_all only: assms)
  then show "db_next_tx_id db' = db_next_tx_id db" "db_next_txin_id db' = db_next_txin_id db"
    "db_next_txout_id db' = db_next_txout_id db" "db_scripts db' = db_scripts db"
    by simp_all
qed

lemma insertTx_new_parts:
  assumes r: "insertTx_new cap tx0 v = (v', Inr (Some t))"
  shows "\<exists>(db1::database) ins (v2::Vault) txouts1 outs (db3::database) (tx3::Tx) (db4::database).
     check_inputs (map txin_id (tx_txins (Tx_assign_ids (v_db v) tx0)))
        (tx_id (Tx_assign_ids (v_db v) tx0)) (tx_txins (Tx_assign_ids (v_db v) tx0)) (v_db v)
        \<lparr>conflicting_txs = [], sent_from_vault = False, have_all_outpoints = True,
         input_total = 0, sending_account = None\<rparr> = Inr (db1, ins) \<and>
     check_outputs cap (tx_hash (Tx_assign_ids (v_db v) tx0)) (sent_from_vault ins)
        (sending_account ins) (tx_txouts (Tx_assign_ids (v_db v) tx0)) (v\<lparr>v_db := db1\<rparr>)
        \<lparr>scripts = [], sent_to_vault = False, output_total = 0\<rparr> = (v2, Inr (txouts1, outs)) \<and>
     update_conflicting (conflicting_txs ins) (v_db v2) = Inr db3 \<and>
     tx_id tx3 = db_next_tx_id (v_db v) \<and> tx_hash tx3 = tx_hash tx0 \<and>
     tx_txins tx3 = tx_txins (Tx_assign_ids (v_db v) tx0) \<and> tx_txouts tx3 = txouts1 \<and>
     tx_status tx3 = (if conflicting_txs ins \<noteq> [] then CONFLICTING else tx_status tx0) \<and>
     db4 = fold update_script (scripts outs) (persist_tx tx3 db3) \<and>
     t = tx3 \<and>
     (v_db v' = db4 \<or> (\<exists>count. updateConfirmations_unwrapped (Some tx3) db4 = Inr (v_db v', count)))"
proof -
  define tx where "tx = Tx_assign_ids (v_db v) tx0"
  note d = insertTx_new_def [of cap tx0 v, unfolded Let_def, folded tx_def]
  have txf: "tx_id tx = db_next_tx_id (v_db v)" "tx_status tx = tx_status tx0"
    "tx_hash tx = tx_hash tx0"
    by (simp_all add: tx_def Tx_assign_ids_def)
  have "\<exists>(db1::database) ins (v2::Vault) txouts1 outs (db3::database) (tx3::Tx) (db4::database).
     check_inputs (map txin_id (tx_txins tx)) (tx_id tx) (tx_txins tx) (v_db v)
        \<lparr>conflicting_txs = [], sent_from_vault = False, have_all_outpoints = True,
         input_total = 0, sending_account = None\<rparr> = Inr (db1, ins) \<and>
     check_outputs cap (tx_hash tx) (sent_from_vault ins)
        (sending_account ins) (tx_txouts tx) (v\<lparr>v_db := db1\<rparr>)
        \<lparr>scripts = [], sent_to_vault = False, output_total = 0\<rparr> = (v2, Inr (txouts1, outs)) \<and>
     update_conflicting (conflicting_txs ins) (v_db v2) = Inr db3 \<and>
     tx_id tx3 = db_next_tx_id (v_db v) \<and> tx_hash tx3 = tx_hash tx0 \<and>
     tx_txins tx3 = tx_txins tx \<and> tx_txouts tx3 = txouts1 \<and>
     tx_status tx3 = (if conflicting_txs ins \<noteq> [] then CONFLICTING else tx_status tx0) \<and>
     db4 = fold update_script (scripts outs) (persist_tx tx3 db3) \<and>
     t = tx3 \<and>
     (v_db v' = db4 \<or> (\<exists>count. updateConfirmations_unwrapped (Some tx3) db4 = Inr (v_db v', count)))"
    (is ?goal)
  proof (cases "check_inputs (map txin_id (tx_txins tx)) (tx_id tx) (tx_txins tx) (v_db v)
                \<lparr>conflicting_txs = [], sent_from_vault = False, have_all_outpoints = True,
                 input_total = 0, sending_account = None\<rparr>")
    case (Inl e)
    with r show ?goal unfolding d by simp
  next
    case (Inr p)
    obtain db1 ins where p: "p = (db1, ins)" by (cases p)
    note ci = Inr [unfolded p]
    obtain v2 ro where
      co: "check_outputs cap (tx_hash tx) (sent_from_vault ins) (sending_account ins)
                     (tx_txouts tx) (v\<lparr>v_db := db1\<rparr>)
                     \<lparr>scripts = [], sent_to_vault = False, output_total = 0\<rparr> = (v2, ro)"
      by (cases "check_outputs cap (tx_hash tx) (sent_from_vault ins) (sending_account ins)
                     (tx_txouts tx) (v\<lparr>v_db := db1\<rparr>)
                     \<lparr>scripts = [], sent_to_vault = False, output_total = 0\<rparr>")
    show ?goal
    proof (cases ro)
      case (Inl e)
      with r ci co show ?goal unfolding d by simp
    next
      case (Inr q)
      obtain txouts1 outs where q: "q = (txouts1, outs)" by (cases q)
      note co' = co [unfolded Inr q]
      from check_outputs_frame [OF co']
      have f: "db_txs (v_db v2) = db_txs db1" by simp
      show ?goal
      proof (cases "update_conflicting (conflicting_txs ins) (v_db v2)")
        case (Inl e)
        with r ci co' show ?goal unfolding d by simp
      next
        case (Inr db3)
        let ?tx2 = "if conflicting_txs ins \<noteq> []
             then Tx_updateStatus_to CONFLICTING (tx\<lparr>tx_txouts := txouts1\<rparr>)
             else tx\<lparr>tx_txouts := txouts1\<rparr>"
        let ?tx3 = "if have_all_outpoints ins
             then ?tx2\<lparr>tx_fee := input_total ins - output_total outs\<rparr> else ?tx2"
        let ?db4 = "fold update_script (scripts outs) (persist_tx ?tx3 db3)"
        define tx3 where "tx3 = ?tx3"
        define db4 where "db4 = ?db4"
        have t3: "tx_id tx3 = db_next_tx_id (v_db v)"
          "tx_status tx3 = (if conflicting_txs ins \<noteq> [] then CONFLICTING else tx_status tx0)"
          "tx_hash tx3 = tx_hash tx0" "tx_txins tx3 = tx_txins tx" "tx_txouts tx3 = txouts1"
          using txf by (simp_all add: tx3_def Tx_updateStatus_to_def)
        have d4: "db4 = fold update_script (scripts outs) (persist_tx tx3 db3)"
          by (simp add: db4_def tx3_def)
        have "insertTx_new cap tx0 v = (if sent_from_vault ins \<or> sent_to_vault outs
                          then
                            (if tx_status_rank (tx_status ?tx3) \<ge> tx_status_rank SENT
                                then (case updateConfirmations_unwrapped (Some ?tx3) ?db4 of
                                        Inl e \<Rightarrow> (v2\<lparr>v_db := ?db4\<rparr>, Inl e)
                                      | Inr (db5, count) \<Rightarrow> (v2\<lparr>v_db := db5\<rparr>, Inr (Some ?tx3)))
                                else (v2\<lparr>v_db := ?db4\<rparr>, Inr (Some ?tx3)))
                          else (v2\<lparr>v_db := db3\<rparr>, Inr None))"
          by (simp only: d ci co' Inr sum.case prod.case)
        with r have e: "(if sent_from_vault ins \<or> sent_to_vault outs
                          then
                            (if tx_status_rank (tx_status tx3) \<ge> tx_status_rank SENT
                                then (case updateConfirmations_unwrapped (Some tx3) db4 of
                                        Inl e \<Rightarrow> (v2\<lparr>v_db := db4\<rparr>, Inl e)
                                      | Inr (db5, count) \<Rightarrow> (v2\<lparr>v_db := db5\<rparr>, Inr (Some tx3)))
                                else (v2\<lparr>v_db := db4\<rparr>, Inr (Some tx3)))
                          else (v2\<lparr>v_db := db3\<rparr>, Inr None)) = (v', Inr (Some t))"
          unfolding tx3_def db4_def by simp
        have fin: "t = tx3 \<and>
          (v_db v' = db4 \<or> (\<exists>count. updateConfirmations_unwrapped (Some tx3) db4 = Inr (v_db v', count)))"
        proof (cases "sent_from_vault ins \<or> sent_to_vault outs")
          case False
          with e show ?thesis by auto
        next
          case True
          note sv = True
          show ?thesis
          proof (cases "tx_status_rank (tx_status tx3) \<ge> tx_status_rank SENT")
            case False
            with e sv show ?thesis by auto
          next
            case True
            with e sv have e': "(case updateConfirmations_unwrapped (Some tx3) db4 of
                                        Inl e \<Rightarrow> (v2\<lparr>v_db := db4\<rparr>, Inl e)
                                      | Inr (db5, count) \<Rightarrow> (v2\<lparr>v_db := db5\<rparr>, Inr (Some tx3))) = (v', Inr (Some t))"
              by simp
            then show ?thesis
              by (cases "updateConfirmations_unwrapped (Some tx3) db4") auto
          qed
        qed
        from ci co' Inr t3 d4 fin show ?goal
          by blast
      qed
    qed
  qed
  then show ?thesis unfolding tx_def .
qed

lemma wf_store_ids: "wf_store db \<Longrightarrow> wf_ids db"
  by (simp add: wf_store_def wf_ids_def)

lemma outpoint_of_cong:
  "txin_outhash a = txin_outhash b \<Longrightarrow> txin_outindex a = txin_outindex b \<Longrightarrow>
   outpoint_of db a = outpoint_of db b"
  by (auto simp: outpoint_of_def split: list.splits)

lemma filter_head_map:
  assumes "map f xs = map f ys @ zs" and pq: "\<And>t. P t = Q (f t)" and "filter P ys = y # r"
  shows "\<exists>x r'. filter P xs = x # r' \<and> f x = f y"
  using assms(1,3)
proof (induction ys arbitrary: xs)
  case Nil
  then show ?case by simp
next
  case (Cons a ys)
  from Cons.prems(1) obtain x0 xs' where xs: "xs = x0 # xs'" and fa: "f x0 = f a"
    and rest: "map f xs' = map f ys @ zs"
    by (cases xs) auto
  show ?case
  proof (cases "P a")
    case True
    with Cons.prems(2) have "y = a" by simp
    moreover from True pq [of a] pq [of x0] fa have "P x0" by simp
    ultimately show ?thesis using xs fa by simp
  next
    case False
    with Cons.prems(2) have f: "filter P ys = y # r" by simp
    from False pq [of a] pq [of x0] fa have "\<not> P x0" by simp
    with Cons.IH [OF rest f] xs show ?thesis by simp
  qed
qed

lemma outpoint_of_links:
  assumes l: "map Tx_links (db_txs db') = map Tx_links (db_txs db) @ extra"
    and o: "outpoint_of db a = Some (R, x)"
  shows "\<exists>R'. outpoint_of db' a = Some (R', x) \<and> Tx_links R' = Tx_links R"
proof -
  from o obtain rest where
    f: "filter (\<lambda>t. tx_hash t = txin_outhash a) (db_txs db) = R # rest"
    and r: "unat (txin_outindex a) < length (tx_txouts R)"
    and x: "x = tx_txouts R ! unat (txin_outindex a)"
    unfolding outpoint_of_Some by blast
  have pq: "(tx_hash t = txin_outhash a) = ((\<lambda>p. fst (snd p) = txin_outhash a) (Tx_links t))" for t
    by (simp add: Tx_links_def)
  from filter_head_map [OF l pq f] obtain R' rest' where
    f': "filter (\<lambda>t. tx_hash t = txin_outhash a) (db_txs db') = R' # rest'"
    and e: "Tx_links R' = Tx_links R" by blast
  from Tx_links_fields(4) [OF e] r x f' e show ?thesis
    unfolding outpoint_of_Some by auto
qed

lemma TxIn_tx_new_row:
  assumes l: "map Tx_links (db_txs db') = map Tx_links (db_txs db) @ [Tx_links t]"
    and old: "\<And>a. a \<in> set (db_txins db) \<Longrightarrow> txin_id a \<noteq> i"
    and new: "i \<in> set (map txin_id (tx_txins t))"
  shows "\<exists>r. TxIn_tx db' i = Inr r \<and> Tx_links r = Tx_links t \<and> r \<in> set (db_txs db')"
proof -
  from l obtain ys r where d: "db_txs db' = ys @ [r]"
    and ys: "map Tx_links ys = map Tx_links (db_txs db)" and r: "Tx_links r = Tx_links t"
    by (auto simp: map_eq_append_conv)
  from links_ids(3) [OF ys] have ins: "map tx_txins ys = map tx_txins (db_txs db)" .
  have "i \<notin> set (map txin_id (tx_txins y))" if "y \<in> set ys" for y
  proof -
    from that have "tx_txins y \<in> set (map tx_txins ys)" by simp
    then have "tx_txins y \<in> set (map tx_txins (db_txs db))" unfolding ins .
    then have "set (tx_txins y) \<subseteq> set (db_txins db)" by (auto simp: db_txins_def)
    with old show ?thesis by auto
  qed
  then have "filter (\<lambda>t. i \<in> set (map txin_id (tx_txins t))) ys = []"
    by (simp add: filter_empty_conv)
  moreover from new Tx_links_fields(3) [OF r] have "i \<in> set (map txin_id (tx_txins r))" by simp
  ultimately have "TxIn_tx db' i = Inr r" by (simp add: TxIn_tx_def d)
  with r d show ?thesis by simp
qed

lemma Tx_assign_ids_fields:
  "tx_id (Tx_assign_ids db tx) = db_next_tx_id db"
  "tx_hash (Tx_assign_ids db tx) = tx_hash tx"
  "tx_status (Tx_assign_ids db tx) = tx_status tx"
  "length (tx_txins (Tx_assign_ids db tx)) = length (tx_txins tx)"
  "length (tx_txouts (Tx_assign_ids db tx)) = length (tx_txouts tx)"
  "map txin_id (tx_txins (Tx_assign_ids db tx)) =
     [db_next_txin_id db ..< db_next_txin_id db + length (tx_txins tx)]"
  "map txout_id (tx_txouts (Tx_assign_ids db tx)) =
     [db_next_txout_id db ..< db_next_txout_id db + length (tx_txouts tx)]"
proof -
  have i: "txin_id \<circ> (\<lambda>(k, y). y\<lparr>txin_id := k\<rparr>) = fst"
    and o: "txout_id \<circ> (\<lambda>(k, y). y\<lparr>txout_id := k\<rparr>) = fst"
    by (auto simp: fun_eq_iff)
  show "tx_id (Tx_assign_ids db tx) = db_next_tx_id db"
    "tx_hash (Tx_assign_ids db tx) = tx_hash tx"
    "tx_status (Tx_assign_ids db tx) = tx_status tx"
    "length (tx_txins (Tx_assign_ids db tx)) = length (tx_txins tx)"
    "length (tx_txouts (Tx_assign_ids db tx)) = length (tx_txouts tx)"
    by (simp_all add: Tx_assign_ids_def)
  show "map txin_id (tx_txins (Tx_assign_ids db tx)) =
     [db_next_txin_id db ..< db_next_txin_id db + length (tx_txins tx)]"
    by (simp add: Tx_assign_ids_def i)
  show "map txout_id (tx_txouts (Tx_assign_ids db tx)) =
     [db_next_txout_id db ..< db_next_txout_id db + length (tx_txouts tx)]"
    by (simp add: Tx_assign_ids_def o)
qed

lemma insertTx_new_links:
  assumes res: "insertTx_new cap tx0 v = (v', Inr (Some t))" and wf: "wf_ids (v_db v)"
  shows "\<exists>(db1::database) ins (v2::Vault) outs.
     check_inputs (map txin_id (tx_txins (Tx_assign_ids (v_db v) tx0)))
        (db_next_tx_id (v_db v)) (tx_txins (Tx_assign_ids (v_db v) tx0)) (v_db v)
        \<lparr>conflicting_txs = [], sent_from_vault = False, have_all_outpoints = True,
         input_total = 0, sending_account = None\<rparr> = Inr (db1, ins) \<and>
     check_outputs cap (tx_hash tx0) (sent_from_vault ins)
        (sending_account ins) (tx_txouts (Tx_assign_ids (v_db v) tx0)) (v\<lparr>v_db := db1\<rparr>)
        \<lparr>scripts = [], sent_to_vault = False, output_total = 0\<rparr> = (v2, Inr (tx_txouts t, outs)) \<and>
     map Tx_links (db_txs (v_db v')) = map Tx_links (db_txs db1) @ [Tx_links t] \<and>
     map tx_id (db_txs db1) = map tx_id (db_txs (v_db v)) \<and>
     tx_id t = db_next_tx_id (v_db v) \<and> tx_hash t = tx_hash tx0 \<and>
     tx_txins t = tx_txins (Tx_assign_ids (v_db v) tx0) \<and>
     tx_status t = (if conflicting_txs ins \<noteq> [] then CONFLICTING else tx_status tx0) \<and>
     db_next_tx_id (v_db v') = db_next_tx_id (v_db v) + 1 \<and>
     db_next_txin_id (v_db v') = db_next_txin_id (v_db v) + length (tx_txins tx0) \<and>
     db_next_txout_id (v_db v') = db_next_txout_id (v_db v) + length (tx_txouts tx0)"
proof -
  define tx where "tx = Tx_assign_ids (v_db v) tx0"
  have txf: "tx_id tx = db_next_tx_id (v_db v)" "tx_hash tx = tx_hash tx0"
    "length (tx_txins tx) = length (tx_txins tx0)" "length (tx_txouts tx) = length (tx_txouts tx0)"
    by (simp_all add: tx_def Tx_assign_ids_fields)
  from insertTx_new_parts [OF res, folded tx_def]
  obtain db1 :: database and ins :: input_scan and v2 :: Vault and txouts1 outs
    and db3 :: database and tx3 :: Tx and db4 :: database where
    ci: "check_inputs (map txin_id (tx_txins tx)) (tx_id tx) (tx_txins tx) (v_db v)
          \<lparr>conflicting_txs = [], sent_from_vault = False, have_all_outpoints = True,
           input_total = 0, sending_account = None\<rparr> = Inr (db1, ins)"
    and co: "check_outputs cap (tx_hash tx) (sent_from_vault ins)
        (sending_account ins) (tx_txouts tx) (v\<lparr>v_db := db1\<rparr>)
        \<lparr>scripts = [], sent_to_vault = False, output_total = 0\<rparr> = (v2, Inr (txouts1, outs))"
    and uc: "update_conflicting (conflicting_txs ins) (v_db v2) = Inr db3"
    and t3: "tx_id tx3 = db_next_tx_id (v_db v)" "tx_hash tx3 = tx_hash tx0"
      "tx_txins tx3 = tx_txins tx" "tx_txouts tx3 = txouts1"
      "tx_status tx3 = (if conflicting_txs ins \<noteq> [] then CONFLICTING else tx_status tx0)"
    and d4: "db4 = fold update_script (scripts outs) (persist_tx tx3 db3)"
    and t: "t = tx3"
    and fin: "v_db v' = db4 \<or>
             (\<exists>count. updateConfirmations_unwrapped (Some tx3) db4 = Inr (v_db v', count))"
    by blast
  from wf have dist: "distinct (map tx_id (db_txs (v_db v)))"
    and lt: "\<And>t. t \<in> set (db_txs (v_db v)) \<Longrightarrow> tx_id t < db_next_tx_id (v_db v)"
    by (simp_all add: wf_ids_def list_all_iff)
  have own: "\<forall>txin \<in> set (tx_txins tx). txin_id txin \<in> set (map txin_id (tx_txins tx))"
    by simp
  from check_inputs_conflicts [OF ci links_refl own]
  have l: "links_extended (map txin_id (tx_txins tx)) (v_db v) db1" by simp
  from links_skeleton [OF l]
  have sk: "map Tx_without_txouts (db_txs db1) = map Tx_without_txouts (db_txs (v_db v))" .
  have ids1: "map tx_id (db_txs db1) = map tx_id (db_txs (v_db v))"
    by (rule map_via_skeleton [OF sk]) (simp add: Tx_without_txouts_def)
  note c1 = only_txs_counters [of db1 "v_db v"]
  have o1: "db1\<lparr>db_txs := []\<rparr> = (v_db v)\<lparr>db_txs := []\<rparr>"
    by (subst check_inputs_only_txs [OF ci]) simp
  from check_outputs_arrives [OF co] have tt: "tx_tables (v_db v2) = tx_tables db1" by simp
  note f2 = tx_tables_fields [OF tt]
  from f2(1) ids1 dist have d2: "distinct (map tx_id (db_txs (v_db v2)))" by simp
  from update_conflicting_links [OF uc d2]
  have l3: "map Tx_links (db_txs db3) = map Tx_links (db_txs (v_db v2))"
    and o3: "db3\<lparr>db_txs := []\<rparr> = (v_db v2)\<lparr>db_txs := []\<rparr>" by simp_all
  note c3 = only_txs_counters [OF o3]
  have tt4: "tx_tables db4 = tx_tables (persist_tx tx3 db3)" unfolding d4 by simp
  note f4 = tx_tables_fields [OF tt4]
  have l4: "map Tx_links (db_txs db4) = map Tx_links (db_txs db1) @ [Tx_links tx3]"
    unfolding f4(1) using l3 f2(1) by (simp add: persist_tx_def)
  have n4: "db_next_tx_id db4 = db_next_tx_id (v_db v) + 1"
    "db_next_txin_id db4 = db_next_txin_id (v_db v) + length (tx_txins tx0)"
    "db_next_txout_id db4 = db_next_txout_id (v_db v) + length (tx_txouts tx0)"
  proof -
    from check_outputs_arrives [OF co] have "length txouts1 = length (tx_txouts tx)"
      by (auto dest: list_all2_lengthD)
    then show "db_next_tx_id db4 = db_next_tx_id (v_db v) + 1"
      "db_next_txin_id db4 = db_next_txin_id (v_db v) + length (tx_txins tx0)"
      "db_next_txout_id db4 = db_next_txout_id (v_db v) + length (tx_txouts tx0)"
      unfolding f4 using c3 f2 c1 [OF o1] t3 txf by (simp_all add: persist_tx_def)
  qed
  from arg_cong [OF l4, of "map fst"] ids1 t3(1)
  have ids4: "map tx_id (db_txs db4) = map tx_id (db_txs (v_db v)) @ [db_next_tx_id (v_db v)]"
    by (simp add: comp_def Tx_links_def)
  have "db_next_tx_id (v_db v) \<notin> tx_id ` set (db_txs (v_db v))" using lt by fastforce
  then have d4': "distinct (map tx_id (db_txs db4))"
    unfolding ids4 using dist by simp
  have lfin: "map Tx_links (db_txs (v_db v')) = map Tx_links (db_txs db1) @ [Tx_links tx3] \<and>
     db_next_tx_id (v_db v') = db_next_tx_id (v_db v) + 1 \<and>
     db_next_txin_id (v_db v') = db_next_txin_id (v_db v) + length (tx_txins tx0) \<and>
     db_next_txout_id (v_db v') = db_next_txout_id (v_db v) + length (tx_txouts tx0)"
  proof (cases "v_db v' = db4")
    case True
    with l4 n4 show ?thesis by simp
  next
    case False
    with fin obtain count where
      "updateConfirmations_unwrapped (Some tx3) db4 = Inr (v_db v', count)" by blast
    from updateConfirmations_loop_Tx_links [OF this [unfolded updateConfirmations_unwrapped_def] d4']
    have a: "map Tx_links (db_txs (v_db v')) = map Tx_links (db_txs db4)"
      and b: "(v_db v')\<lparr>db_txs := []\<rparr> = db4\<lparr>db_txs := []\<rparr>" by simp_all
    from a l4 only_txs_counters [OF b] n4 show ?thesis by simp
  qed
  from ci co lfin ids1 t3 t txf show ?thesis
    unfolding tx_def [symmetric] by (intro exI [of _ db1] exI [of _ ins] exI [of _ v2] exI [of _ outs]) simp
qed

lemma marks_txins:
  assumes "marks_added mk db db1"
  shows "db_txins db1 = db_txins db" "map tx_id (db_txs db1) = map tx_id (db_txs db)"
proof -
  have "map tx_txins (db_txs db1) = map tx_txins (db_txs db)"
    using assms unfolding marks_added_def
  proof (rule list_all2_map_eq)
    fix x y :: Tx
    assume "Tx_without_txouts y = Tx_without_txouts x \<and>
       list_all2 (\<lambda>x0 x'. x' = x0 \<or> TxOut_unlinked x' = TxOut_unlinked x0 \<and> mk x x') (tx_txouts x) (tx_txouts y)"
    then have "Tx_without_txouts y = Tx_without_txouts x" by simp
    from Tx_without_txouts_fields(3) [OF this] show "tx_txins y = tx_txins x" .
  qed
  then show "db_txins db1 = db_txins db" by (simp add: db_txins_def)
  show "map tx_id (db_txs db1) = map tx_id (db_txs db)"
    using assms unfolding marks_added_def
  proof (rule list_all2_map_eq)
    fix x y :: Tx
    assume "Tx_without_txouts y = Tx_without_txouts x \<and>
       list_all2 (\<lambda>x0 x'. x' = x0 \<or> TxOut_unlinked x' = TxOut_unlinked x0 \<and> mk x x') (tx_txouts x) (tx_txouts y)"
    then have "Tx_without_txouts y = Tx_without_txouts x" by simp
    from Tx_without_txouts_fields(2) [OF this] show "tx_id y = tx_id x" .
  qed
qed

lemma ev_T1_result:
  "insertTx env0 tx_T1 (vault_of db_acct) = (vault_of db_T1, Inr (Some (last (db_txs db_T1))))"
  by (simp add: insertTx_def ev_defs ex_defs tx_T1_def db_T1_def)

lemma ev_T2_result:
  "snd (insertTx env0 tx_T2 (vault_of db_T1)) = Inr (Some stored_T2)"
  by (simp add: insertTx_def ev_defs ex_defs tx_T2_def db_T1_def stored_T2_def)

lemma ev_T2_statuses:
  "map (\<lambda>t. (tx_id t, tx_status t)) (db_txs (v_db (fst (insertTx env0 tx_T2 (vault_of db_T1))))) =
     [(1, CONFIRMED), (2, CONFLICTING), (3, CONFLICTING)]"
  by (simp add: insertTx_def ev_defs ex_defs tx_T2_def db_T1_def)

text \<open>
  Claim C4, as stated, fails. \<open>tx_T3\<close> and \<open>tx_T4\<close> both spend output 0 of the
  transaction with hash \<open>0xaa\<close>, which the vault does not store, and both pay to a script
  of the account. Both insertions return a transaction, and afterwards both are stored
  with status PROPAGATED: the conflict is found through the back-link of a stored
  output only.
\<close>

theorem double_spend_of_unknown_outpoint_undetected:
  "insertTx env0 tx_T3 (vault_of db_acct) = (vault_of db_T3, Inr (Some (last (db_txs db_T3)))) \<and>
   (\<exists>t. snd (insertTx env0 tx_T4 (vault_of db_T3)) = Inr (Some t) \<and> tx_status t = PROPAGATED) \<and>
   map (\<lambda>t. (tx_hash t, tx_status t, map (\<lambda>i. (txin_outhash i, txin_outindex i)) (tx_txins t)))
     (db_txs (v_db (fst (insertTx env0 tx_T4 (vault_of db_T3))))) =
     [([0xf0], CONFIRMED, []), ([0x15], PROPAGATED, [([0xaa], 0)]),
      ([0x17], PROPAGATED, [([0xaa], 0)])]"
  by (simp add: insertTx_def ev_defs ex_defs tx_T3_def tx_T4_def db_T3_def)

text \<open>
  The scan of the inputs finds the transaction of the input that a stored output points
  at: the incoming transaction and that transaction become CONFLICTING, unless the
  stored one is CONFIRMED.
\<close>

lemma linked_outpoint_conflicts:
  assumes wf: "wf_ids (v_db v)"
    and nodup: "filter (\<lambda>t. tx_unsigned_hash t = tx_unsigned_hash T2) (db_txs (v_db v)) = []"
    and res: "insertTx cap T2 v = (v', Inr (Some T2'))"
    and txin: "txin \<in> set (tx_txins T2)"
    and O: "filter (\<lambda>t. tx_hash t = txin_outhash txin) (db_txs (v_db v)) = O_tx # rest"
    and link: "txout_spent (tx_txouts O_tx ! unat (txin_outindex txin)) = Some c"
    and T1: "TxIn_tx (v_db v) c = Inr T1"
  shows "tx_status T2' = CONFLICTING \<and>
     (\<exists>t \<in> set (db_txs (v_db v')). tx_id t = tx_id T2' \<and> tx_status t = CONFLICTING) \<and>
     (\<exists>T1' \<in> set (db_txs (v_db v')). tx_id T1' = tx_id T1) \<and>
     (\<forall>T1' \<in> set (db_txs (v_db v')). tx_id T1' = tx_id T1 \<longrightarrow>
         tx_status T1' = (if tx_status T1 = CONFIRMED then CONFIRMED else CONFLICTING))"
proof -
  from insertTx_Some [OF res] nodup
  have n: "insertTx_new cap (Tx_updateStatus cap T2) v = (v', Inr (Some T2'))"
    by (simp add: insertTx_unwrapped_def)
  define tx where "tx = Tx_assign_ids (v_db v) (Tx_updateStatus cap T2)"
  define nxt where "nxt = db_next_tx_id (v_db v)"
  have txid: "tx_id tx = nxt" by (simp add: tx_def nxt_def Tx_assign_ids_def)
  from insertTx_new_Some [OF n] obtain db1 :: database and ins :: input_scan and v2 :: Vault and db3 :: database
    and tx3 :: Tx and db4 :: database where
    ci: "check_inputs (map txin_id (tx_txins tx)) (tx_id tx) (tx_txins tx) (v_db v)
          \<lparr>conflicting_txs = [], sent_from_vault = False, have_all_outpoints = True,
           input_total = 0, sending_account = None\<rparr> = Inr (db1, ins)"
    and f: "db_txs (v_db v2) = db_txs db1"
    and uc: "update_conflicting (conflicting_txs ins) (v_db v2) = Inr db3"
    and t3: "tx_id tx3 = nxt"
      "tx_status tx3 = (if conflicting_txs ins \<noteq> [] then CONFLICTING
                        else tx_status (Tx_updateStatus cap T2))"
    and d4: "db_txs db4 = db_txs db3 @ [tx3]"
    and t: "T2' = tx3"
    and fin: "v_db v' = db4 \<or>
             (\<exists>count. updateConfirmations_unwrapped (Some tx3) db4 = Inr (v_db v', count))"
    unfolding tx_def nxt_def by blast
  define C where "C = set (conflicting_txs ins)"
  define F where "F = (\<lambda>t::Tx. (tx_id t, if tx_id t \<in> C \<and> tx_status t \<noteq> CONFIRMED
                                          then CONFLICTING else tx_status t))"
  define st where "st = (\<lambda>t::Tx. (tx_id t, tx_status t))"
  have fst_st: "fst \<circ> st = tx_id" "fst \<circ> F = tx_id"
    by (auto simp: st_def F_def)
  from wf have dist: "distinct (map tx_id (db_txs (v_db v)))"
    and lt: "\<And>t. t \<in> set (db_txs (v_db v)) \<Longrightarrow> tx_id t < nxt"
    by (simp_all add: wf_ids_def list_all_iff nxt_def)
  have own: "\<forall>txin \<in> set (tx_txins tx). txin_id txin \<in> set (map txin_id (tx_txins tx))"
    by simp
  from check_inputs_conflicts [OF ci links_refl own]
  have l: "links_extended (map txin_id (tx_txins tx)) (v_db v) db1"
    and hit: "\<forall>txin \<in> set (tx_txins tx). \<forall>O_tx rest c T1.
        filter (\<lambda>t. tx_hash t = txin_outhash txin) (db_txs (v_db v)) = O_tx # rest \<longrightarrow>
        txout_spent (tx_txouts O_tx ! unat (txin_outindex txin)) = Some c \<longrightarrow>
        TxIn_tx (v_db v) c = Inr T1 \<longrightarrow>
        tx_id T1 \<in> set (conflicting_txs ins) \<or> tx_id tx \<in> set (conflicting_txs ins)"
    by simp_all
  from txin have "txin \<in> set (tx_txins (Tx_updateStatus cap T2))" by simp
  from Tx_assign_ids_txin [OF this, of "v_db v"] obtain txin' where
    i: "txin' \<in> set (tx_txins tx)" "txin_outhash txin' = txin_outhash txin"
      "txin_outindex txin' = txin_outindex txin"
    unfolding tx_def by blast
  from hit i O link T1 have c: "tx_id T1 \<in> C \<or> nxt \<in> C"
    unfolding C_def txid [symmetric] by metis
  from links_skeleton [OF l]
  have sk: "map Tx_without_txouts (db_txs db1) = map Tx_without_txouts (db_txs (v_db v))" .
  have ids1: "map tx_id (db_txs db1) = map tx_id (db_txs (v_db v))"
    by (rule map_via_skeleton [OF sk]) (simp add: Tx_without_txouts_def)
  from f ids1 dist have d2: "distinct (map tx_id (db_txs (v_db v2)))" by simp
  from update_conflicting_effect [OF uc d2]
  have sub: "C \<subseteq> tx_id ` set (db_txs (v_db v2))"
    and s3: "map st (db_txs db3) = map F (db_txs (v_db v2))"
    by (simp_all add: C_def F_def st_def)
  have img: "tx_id ` set (db_txs (v_db v2)) = tx_id ` set (db_txs (v_db v))"
    using f ids1 by (metis set_map)
  have "nxt \<notin> tx_id ` set (db_txs (v_db v))" using lt by auto
  with sub img have nn: "nxt \<notin> C" by blast
  with c have t1c: "tx_id T1 \<in> C" by simp
  then have "conflicting_txs ins \<noteq> []" by (auto simp: C_def)
  with t3 have st3: "tx_status tx3 = CONFLICTING" by simp
  have "map F (db_txs db1) = map F (db_txs (v_db v))"
    by (rule map_via_skeleton [OF sk]) (simp add: Tx_without_txouts_def F_def)
  with s3 f have s3': "map st (db_txs db3) = map F (db_txs (v_db v))" by simp
  with d4 t3(1) st3 have s4: "map st (db_txs db4) = map F (db_txs (v_db v)) @ [(nxt, CONFLICTING)]"
    by (simp add: st_def)
  from arg_cong [OF s4, of "map fst"]
  have ids4: "map tx_id (db_txs db4) = map tx_id (db_txs (v_db v)) @ [nxt]"
    by (simp add: fst_st)
  have d4': "distinct (map tx_id (db_txs db4))"
    unfolding ids4 using dist lt by auto
  have sfin: "map st (db_txs (v_db v')) = map F (db_txs (v_db v)) @ [(nxt, CONFLICTING)]"
  proof (cases "v_db v' = db4")
    case True
    with s4 show ?thesis by simp
  next
    case False
    with fin obtain count where
      "updateConfirmations_unwrapped (Some tx3) db4 = Inr (v_db v', count)" by blast
    from updateConfirmations_loop_statuses [OF this [unfolded updateConfirmations_unwrapped_def] d4'] s4
    show ?thesis by (simp add: st_def)
  qed
  from T1 have T1in: "T1 \<in> set (db_txs (v_db v))"
    by (auto simp: TxIn_tx_def split: list.splits dest: filter_Cons_props)
  have mem: "(p \<in> set (map st (db_txs (v_db v')))) =
             (p \<in> F ` set (db_txs (v_db v)) \<or> p = (nxt, CONFLICTING))" for p
    unfolding sfin by auto
  have A: "tx_status T2' = CONFLICTING" using t st3 by simp
  have B: "\<exists>t \<in> set (db_txs (v_db v')). tx_id t = tx_id T2' \<and> tx_status t = CONFLICTING"
  proof -
    have "(nxt, CONFLICTING) \<in> set (map st (db_txs (v_db v')))" unfolding mem by simp
    then show ?thesis using t t3(1) by (auto simp: st_def)
  qed
  have C': "\<exists>T1' \<in> set (db_txs (v_db v')). tx_id T1' = tx_id T1"
  proof -
    have "F T1 \<in> set (map st (db_txs (v_db v')))" unfolding mem using T1in by simp
    then show ?thesis by (auto simp: st_def F_def)
  qed
  have D: "tx_status T1' = (if tx_status T1 = CONFIRMED then CONFIRMED else CONFLICTING)"
    if m: "T1' \<in> set (db_txs (v_db v'))" and e: "tx_id T1' = tx_id T1" for T1'
  proof -
    from m have "st T1' \<in> set (map st (db_txs (v_db v')))" by simp
    then have "st T1' \<in> F ` set (db_txs (v_db v)) \<or> st T1' = (nxt, CONFLICTING)"
      unfolding mem .
    then show ?thesis
    proof
      assume "st T1' \<in> F ` set (db_txs (v_db v))"
      then obtain r where r: "r \<in> set (db_txs (v_db v))" "st T1' = F r" by blast
      then have "tx_id r = tx_id T1" using e by (simp add: st_def F_def)
      from distinct_ids_nth [OF dist r(1)] T1in this have "r = T1"
        by (metis in_set_conv_nth)
      with r(2) t1c show ?thesis by (simp add: st_def F_def)
    next
      assume "st T1' = (nxt, CONFLICTING)"
      then have "tx_id T1 = nxt" using e by (simp add: st_def)
      with lt [OF T1in] show ?thesis by simp
    qed
  qed
  from A B C' D show ?thesis by blast
qed

text \<open>
  Claim C4, amended. Let the ids of the store be well-formed, let \<open>T1\<close> and \<open>T2\<close> be new
  to the vault when they are inserted, \<open>T1\<close> first and \<open>T2\<close> next, and let both
  insertions return a transaction. Let an input of \<open>T1\<close> spend an output that is stored
  when \<open>T1\<close> is inserted and that pays to a signing script of the vault, and let an
  input of \<open>T2\<close> spend the same outpoint. Then \<open>T2\<close> is returned and stored as
  CONFLICTING, and the row of \<open>T1\<close> is CONFLICTING afterwards, unless it was CONFIRMED
  before the insertion of \<open>T2\<close>, in which case it stays CONFIRMED.
\<close>

theorem double_spend_two_insertions:
  assumes wf: "wf_store (v_db v0)"
    and new1: "filter (\<lambda>t. tx_unsigned_hash t = tx_unsigned_hash T1) (db_txs (v_db v0)) = []"
    and res1: "insertTx cap T1 v0 = (v1, Inr (Some T1'))"
    and in1: "a \<in> set (tx_txins T1)"
    and O: "outpoint_of (v_db v0) a = Some (O_tx, O_out)"
    and owned: "TxOut_owned (v_db v0) O_out"
    and new2: "filter (\<lambda>t. tx_unsigned_hash t = tx_unsigned_hash T2) (db_txs (v_db v1)) = []"
    and res2: "insertTx cap T2 v1 = (v2, Inr (Some T2'))"
    and in2: "b \<in> set (tx_txins T2)" "txin_outhash b = txin_outhash a"
      "txin_outindex b = txin_outindex a"
  shows "tx_status T2' = CONFLICTING \<and>
     (\<exists>t \<in> set (db_txs (v_db v2)). tx_id t = tx_id T2' \<and> tx_status t = CONFLICTING) \<and>
     (\<exists>S1 \<in> set (db_txs (v_db v1)). tx_id S1 = tx_id T1' \<and>
        (\<exists>S1' \<in> set (db_txs (v_db v2)). tx_id S1' = tx_id T1') \<and>
        (\<forall>S1' \<in> set (db_txs (v_db v2)). tx_id S1' = tx_id T1' \<longrightarrow>
           tx_status S1' = (if tx_status S1 = CONFIRMED then CONFIRMED else CONFLICTING)))"
proof -
  from insertTx_Some [OF res1] new1
  have n1: "insertTx_new cap (Tx_updateStatus cap T1) v0 = (v1, Inr (Some T1'))"
    by (simp add: insertTx_unwrapped_def)
  define tx1 where "tx1 = Tx_assign_ids (v_db v0) (Tx_updateStatus cap T1)"
  define own where "own = map txin_id (tx_txins tx1)"
  define mk where "mk = (\<lambda>(t::Tx) (x::TxOut). \<exists>i \<in> set own. txout_spent x = Some i)"
  from wf have wfi: "wf_ids (v_db v0)" by (rule wf_store_ids)
  from insertTx_new_links [OF n1 wfi, folded tx1_def]
  obtain db1 :: database and ins :: input_scan where
    ci: "check_inputs (map txin_id (tx_txins tx1)) (db_next_tx_id (v_db v0)) (tx_txins tx1) (v_db v0)
          \<lparr>conflicting_txs = [], sent_from_vault = False, have_all_outpoints = True,
           input_total = 0, sending_account = None\<rparr> = Inr (db1, ins)"
    and l: "map Tx_links (db_txs (v_db v1)) = map Tx_links (db_txs db1) @ [Tx_links T1']"
    and tid: "tx_id T1' = db_next_tx_id (v_db v0)"
    and tins: "tx_txins T1' = tx_txins tx1"
    and nid: "db_next_tx_id (v_db v1) = db_next_tx_id (v_db v0) + 1"
    by blast
  from wf have dout: "distinct (map txout_id (db_txouts (v_db v0)))"
    and inlt: "\<And>i. i \<in> set (db_txins (v_db v0)) \<Longrightarrow> txin_id i < db_next_txin_id (v_db v0)"
    and dist: "distinct (map tx_id (db_txs (v_db v0)))"
    and lt: "\<And>t. t \<in> set (db_txs (v_db v0)) \<Longrightarrow> tx_id t < db_next_tx_id (v_db v0)"
    by (simp_all add: wf_store_def list_all_iff)
  have cong: "mk t x = mk t' x" for t t' :: Tx and x
    by (simp add: mk_def)
  have pre: "mk R (TxOut_spent (Some (txin_id txin)) x)"
    if "txin \<in> set (tx_txins tx1)" for txin R x
    using that by (auto simp: mk_def own_def TxOut_spent_def)
  from check_inputs_marks [of mk, OF cong ci dout pre]
  have marks: "marks_added mk (v_db v0) db1"
    and hit: "\<forall>txin \<in> set (tx_txins tx1). \<forall>R x. outpoint_of (v_db v0) txin = Some (R, x) \<longrightarrow>
        TxOut_owned (v_db v0) x \<longrightarrow>
        (\<exists>R' x'. outpoint_of db1 txin = Some (R', x') \<and> TxOut_unlinked x' = TxOut_unlinked x \<and> mk R x')"
    by simp_all
  from in1 have "a \<in> set (tx_txins (Tx_updateStatus cap T1))" by simp
  from Tx_assign_ids_txin [OF this, of "v_db v0"] obtain a' where
    a': "a' \<in> set (tx_txins tx1)" "txin_outhash a' = txin_outhash a"
      "txin_outindex a' = txin_outindex a"
    unfolding tx1_def by blast
  from O outpoint_of_cong [OF a'(2,3)] have "outpoint_of (v_db v0) a' = Some (O_tx, O_out)"
    by simp
  with hit a'(1) owned obtain R' x' where
    o1: "outpoint_of db1 a' = Some (R', x')" and m: "mk O_tx x'" by blast
  from m obtain i where i: "i \<in> set own" "txout_spent x' = Some i" unfolding mk_def by blast
  from outpoint_of_links [OF l o1] obtain R2 where
    o2: "outpoint_of (v_db v1) a' = Some (R2, x')" by blast
  from in2(2,3) a'(2,3) have "outpoint_of (v_db v1) b = outpoint_of (v_db v1) a'"
    by (intro outpoint_of_cong) simp_all
  with o2 have ob: "outpoint_of (v_db v1) b = Some (R2, x')" by simp
  then obtain rest where
    f: "filter (\<lambda>t. tx_hash t = txin_outhash b) (db_txs (v_db v1)) = R2 # rest"
    and x: "x' = tx_txouts R2 ! unat (txin_outindex b)"
    unfolding outpoint_of_Some by blast
  from x i(2) have link: "txout_spent (tx_txouts R2 ! unat (txin_outindex b)) = Some i" by simp
  have ige: "db_next_txin_id (v_db v0) \<le> i"
    using i(1) unfolding own_def tx1_def Tx_assign_ids_fields by simp
  have old: "txin_id c \<noteq> i" if "c \<in> set (db_txins db1)" for c
    using that inlt [of c] ige unfolding marks_txins(1) [OF marks] by auto
  have new: "i \<in> set (map txin_id (tx_txins T1'))"
    using i(1) unfolding own_def tins .
  from TxIn_tx_new_row [OF l old new] obtain S1 where
    S1: "TxIn_tx (v_db v1) i = Inr S1" "Tx_links S1 = Tx_links T1'" "S1 \<in> set (db_txs (v_db v1))"
    by blast
  from arg_cong [OF l, of "map fst"] marks_txins(2) [OF marks] tid
  have ids1: "map tx_id (db_txs (v_db v1)) = map tx_id (db_txs (v_db v0)) @ [db_next_tx_id (v_db v0)]"
    by (simp add: comp_def Tx_links_def)
  have nin: "db_next_tx_id (v_db v0) \<notin> tx_id ` set (db_txs (v_db v0))" using lt by fastforce
  have d1: "distinct (map tx_id (db_txs (v_db v1)))"
    unfolding ids1 using dist nin by simp
  have "tx_id t < db_next_tx_id (v_db v1)" if "t \<in> set (db_txs (v_db v1))" for t
  proof -
    from that have "tx_id t \<in> set (map tx_id (db_txs (v_db v1)))" by simp
    then have "tx_id t \<in> tx_id ` set (db_txs (v_db v0)) \<or> tx_id t = db_next_tx_id (v_db v0)"
      unfolding ids1 by auto
    with lt nid show ?thesis by fastforce
  qed
  with d1 have wf1: "wf_ids (v_db v1)"
    by (simp add: wf_ids_def list_all_iff)
  have e: "tx_id S1 = tx_id T1'" by (rule Tx_links_fields(1) [OF S1(2)])
  from linked_outpoint_conflicts [OF wf1 new2 res2 in2(1) f link S1(1)]
  have A: "tx_status T2' = CONFLICTING"
    and B: "\<exists>t \<in> set (db_txs (v_db v2)). tx_id t = tx_id T2' \<and> tx_status t = CONFLICTING"
    and C: "\<exists>S1' \<in> set (db_txs (v_db v2)). tx_id S1' = tx_id S1"
    and D: "\<forall>S1' \<in> set (db_txs (v_db v2)). tx_id S1' = tx_id S1 \<longrightarrow>
         tx_status S1' = (if tx_status S1 = CONFIRMED then CONFIRMED else CONFLICTING)"
    by blast+
  from C D S1(3) e have "\<exists>S1 \<in> set (db_txs (v_db v1)). tx_id S1 = tx_id T1' \<and>
        (\<exists>S1' \<in> set (db_txs (v_db v2)). tx_id S1' = tx_id T1') \<and>
        (\<forall>S1' \<in> set (db_txs (v_db v2)). tx_id S1' = tx_id T1' \<longrightarrow>
           tx_status S1' = (if tx_status S1 = CONFIRMED then CONFIRMED else CONFLICTING))"
    by (intro bexI [of _ S1]) simp_all
  with A B show ?thesis by blast
qed

theorem double_spend_two_insertions_witness:
  "wf_store db_acct \<and>
   filter (\<lambda>t. tx_unsigned_hash t = tx_unsigned_hash tx_T1) (db_txs db_acct) = [] \<and>
   insertTx env0 tx_T1 (vault_of db_acct) = (vault_of db_T1, Inr (Some (last (db_txs db_T1)))) \<and>
   outpoint_of db_acct (hd (tx_txins tx_T1)) =
     Some (hd (db_txs db_acct), hd (tx_txouts (hd (db_txs db_acct)))) \<and>
   TxOut_owned db_acct (hd (tx_txouts (hd (db_txs db_acct)))) \<and>
   filter (\<lambda>t. tx_unsigned_hash t = tx_unsigned_hash tx_T2) (db_txs db_T1) = [] \<and>
   snd (insertTx env0 tx_T2 (vault_of db_T1)) = Inr (Some stored_T2) \<and>
   map (\<lambda>i. (txin_outhash i, txin_outindex i)) (tx_txins tx_T1) = [([0xf0], 0)] \<and>
   map (\<lambda>i. (txin_outhash i, txin_outindex i)) (tx_txins tx_T2) = [([0xf0], 0)] \<and>
   map (\<lambda>t. (tx_id t, tx_status t)) (db_txs db_T1) = [(1, CONFIRMED), (2, PROPAGATED)] \<and>
   tx_id (last (db_txs db_T1)) = 2 \<and>
   tx_status stored_T2 = CONFLICTING \<and>
   map (\<lambda>t. (tx_id t, tx_status t)) (db_txs (v_db (fst (insertTx env0 tx_T2 (vault_of db_T1))))) =
     [(1, CONFIRMED), (2, CONFLICTING), (3, CONFLICTING)]"
proof -
  have v: "v_db (vault_of db_T1) = db_T1" "v_db (vault_of db_acct) = db_acct"
    by (simp_all add: vault_of_def)
  have a: "wf_store (v_db (vault_of db_acct))"
    by (simp add: v) (simp add: wf_store_def db_txins_def db_txouts_def ex_defs)
  have b: "filter (\<lambda>t. tx_unsigned_hash t = tx_unsigned_hash tx_T1) (db_txs (v_db (vault_of db_acct))) = []"
    by (simp add: v) (simp add: ex_defs tx_T1_def)
  have c: "hd (tx_txins tx_T1) \<in> set (tx_txins tx_T1)"
    by (simp add: tx_T1_def ex_defs)
  have d: "outpoint_of (v_db (vault_of db_acct)) (hd (tx_txins tx_T1)) =
             Some (hd (db_txs db_acct), hd (tx_txouts (hd (db_txs db_acct))))"
    by (simp add: v) (simp add: outpoint_of_def ex_defs tx_T1_def)
  have e: "TxOut_owned (v_db (vault_of db_acct)) (hd (tx_txouts (hd (db_txs db_acct))))"
    by (simp add: v) (simp add: TxOut_owned_def ex_defs)
  have f: "filter (\<lambda>t. tx_unsigned_hash t = tx_unsigned_hash tx_T2) (db_txs (v_db (vault_of db_T1))) = []"
    by (simp add: v) (simp add: db_T1_def ex_defs tx_T2_def)
  have g: "insertTx env0 tx_T2 (vault_of db_T1) =
             (fst (insertTx env0 tx_T2 (vault_of db_T1)), Inr (Some stored_T2))"
    using ev_T2_result by (simp add: prod_eq_iff)
  have h: "hd (tx_txins tx_T2) \<in> set (tx_txins tx_T2)"
    "txin_outhash (hd (tx_txins tx_T2)) = txin_outhash (hd (tx_txins tx_T1))"
    "txin_outindex (hd (tx_txins tx_T2)) = txin_outindex (hd (tx_txins tx_T1))"
    by (simp_all add: tx_T1_def tx_T2_def ex_defs)
  have i: "map (\<lambda>i. (txin_outhash i, txin_outindex i)) (tx_txins tx_T1) = [([0xf0], 0)]"
    "map (\<lambda>i. (txin_outhash i, txin_outindex i)) (tx_txins tx_T2) = [([0xf0], 0)]"
    "map (\<lambda>t. (tx_id t, tx_status t)) (db_txs db_T1) = [(1, CONFIRMED), (2, PROPAGATED)]"
    "tx_id (last (db_txs db_T1)) = 2"
    "tx_status stored_T2 = CONFLICTING"
    by (simp_all add: tx_T1_def tx_T2_def db_T1_def stored_T2_def ex_defs)
  from double_spend_two_insertions [OF a b ev_T1_result c d e f g h]
    a b ev_T1_result d e f i ev_T2_result ev_T2_statuses
  show ?thesis unfolding v by blast
qed

end
